theory Spec2Isabelle
  imports Complex_Main
begin

text \<open>
  The physics demonstrations of the repository: the Compton readouts, the Millikan
  oil drops and voltage input, the Franck--Hertz electrons and current curve, and the
  photoelectric tube with its spawning rule and ammeter. Each script is embedded as
  the functions it defines, on the state it keeps, followed by the properties proved
  of them.
\<close>

section \<open>JavaScript numbers\<close>

text \<open>
  The simulations compute with JavaScript numbers. A number is modelled as a real
  (\<open>Fin\<close>), one of the two infinities, or \<open>NaN\<close>, with the arithmetic of
  IEEE 754 on these four kinds of value: a division by zero yields an infinity or
  \<open>NaN\<close>, the square root of a negative number yields \<open>NaN\<close>, \<open>NaN\<close>
  propagates through arithmetic and every comparison with \<open>NaN\<close> is false.
  Finite values are exact reals: rounding, overflow to infinity and the sign of zero
  are not modelled (a zero divisor is taken as \<open>+0\<close>).

  Quantities that the code only ever reads from a range slider, from the frame clock
  or from a constant table are finite numbers wherever they are used; they are typed
  \<open>real\<close> and enter the arithmetic through \<open>Fin\<close>.
\<close>

datatype jsnum = Fin real | PInf | NInf | NaN

fun isFinite :: "jsnum \<Rightarrow> bool" where
  "isFinite (Fin r) = True"
| "isFinite PInf = False"
| "isFinite NInf = False"
| "isFinite NaN = False"

fun isNaN :: "jsnum \<Rightarrow> bool" where
  "isNaN NaN = True"
| "isNaN (Fin r) = False"
| "isNaN PInf = False"
| "isNaN NInf = False"

instantiation jsnum :: "{plus, minus, uminus, times, inverse, ord}"
begin

fun plus_jsnum :: "jsnum \<Rightarrow> jsnum \<Rightarrow> jsnum" where
  "plus_jsnum NaN b = NaN"
| "plus_jsnum a NaN = NaN"
| "plus_jsnum (Fin a) (Fin b) = Fin (a + b)"
| "plus_jsnum PInf NInf = NaN"
| "plus_jsnum NInf PInf = NaN"
| "plus_jsnum PInf b = PInf"
| "plus_jsnum NInf b = NInf"
| "plus_jsnum (Fin a) PInf = PInf"
| "plus_jsnum (Fin a) NInf = NInf"

fun uminus_jsnum :: "jsnum \<Rightarrow> jsnum" where
  "uminus_jsnum (Fin a) = Fin (- a)"
| "uminus_jsnum PInf = NInf"
| "uminus_jsnum NInf = PInf"
| "uminus_jsnum NaN = NaN"

definition minus_jsnum :: "jsnum \<Rightarrow> jsnum \<Rightarrow> jsnum" where
  "minus_jsnum a b = a + (- b)"

text \<open>The infinity with the sign of \<open>s * t\<close>, for \<open>s\<close> and \<open>t\<close> not zero.\<close>

definition signedInf :: "bool \<Rightarrow> jsnum" where
  "signedInf positive = (if positive then PInf else NInf)"

fun times_jsnum :: "jsnum \<Rightarrow> jsnum \<Rightarrow> jsnum" where
  "times_jsnum NaN b = NaN"
| "times_jsnum a NaN = NaN"
| "times_jsnum (Fin a) (Fin b) = Fin (a * b)"
| "times_jsnum (Fin a) PInf = (if a = 0 then NaN else signedInf (0 < a))"
| "times_jsnum (Fin a) NInf = (if a = 0 then NaN else signedInf (a < 0))"
| "times_jsnum PInf (Fin b) = (if b = 0 then NaN else signedInf (0 < b))"
| "times_jsnum NInf (Fin b) = (if b = 0 then NaN else signedInf (b < 0))"
| "times_jsnum PInf PInf = PInf"
| "times_jsnum PInf NInf = NInf"
| "times_jsnum NInf PInf = NInf"
| "times_jsnum NInf NInf = PInf"

fun divide_jsnum :: "jsnum \<Rightarrow> jsnum \<Rightarrow> jsnum" where
  "divide_jsnum NaN b = NaN"
| "divide_jsnum a NaN = NaN"
| "divide_jsnum (Fin a) (Fin b) =
     (if b \<noteq> 0 then Fin (a / b)
      else if a = 0 then NaN
      else signedInf (0 < a))"
| "divide_jsnum (Fin a) PInf = Fin 0"
| "divide_jsnum (Fin a) NInf = Fin 0"
| "divide_jsnum PInf (Fin b) = signedInf (0 \<le> b)"
| "divide_jsnum NInf (Fin b) = signedInf (b < 0)"
| "divide_jsnum PInf b = NaN"
| "divide_jsnum NInf b = NaN"

definition inverse_jsnum :: "jsnum \<Rightarrow> jsnum" where
  "inverse_jsnum a = divide (Fin 1) a"

fun less_jsnum :: "jsnum \<Rightarrow> jsnum \<Rightarrow> bool" where
  "less_jsnum NaN b = False"
| "less_jsnum a NaN = False"
| "less_jsnum (Fin a) (Fin b) = (a < b)"
| "less_jsnum a NInf = False"
| "less_jsnum PInf b = False"
| "less_jsnum NInf b = True"
| "less_jsnum (Fin a) PInf = True"

fun less_eq_jsnum :: "jsnum \<Rightarrow> jsnum \<Rightarrow> bool" where
  "less_eq_jsnum NaN b = False"
| "less_eq_jsnum a NaN = False"
| "less_eq_jsnum (Fin a) (Fin b) = (a \<le> b)"
| "less_eq_jsnum NInf b = True"
| "less_eq_jsnum a PInf = True"
| "less_eq_jsnum PInf b = False"
| "less_eq_jsnum (Fin a) NInf = False"

instance ..

end

text \<open>\<open>Math.sqrt\<close>, \<open>Math.abs\<close>, \<open>Math.cos\<close>, \<open>Math.sin\<close>, \<open>Math.atan\<close>
  and \<open>Math.hypot\<close>.\<close>

fun Math_sqrt :: "jsnum \<Rightarrow> jsnum" where
  "Math_sqrt (Fin a) = (if a < 0 then NaN else Fin (sqrt a))"
| "Math_sqrt PInf = PInf"
| "Math_sqrt NInf = NaN"
| "Math_sqrt NaN = NaN"

fun Math_abs :: "jsnum \<Rightarrow> jsnum" where
  "Math_abs (Fin a) = Fin \<bar>a\<bar>"
| "Math_abs PInf = PInf"
| "Math_abs NInf = PInf"
| "Math_abs NaN = NaN"

fun Math_cos :: "jsnum \<Rightarrow> jsnum" where
  "Math_cos (Fin a) = Fin (cos a)"
| "Math_cos a = NaN"

fun Math_sin :: "jsnum \<Rightarrow> jsnum" where
  "Math_sin (Fin a) = Fin (sin a)"
| "Math_sin a = NaN"

fun Math_atan :: "jsnum \<Rightarrow> jsnum" where
  "Math_atan (Fin a) = Fin (arctan a)"
| "Math_atan PInf = Fin (pi / 2)"
| "Math_atan NInf = Fin (- (pi / 2))"
| "Math_atan NaN = NaN"

fun Math_hypot :: "jsnum \<Rightarrow> jsnum \<Rightarrow> jsnum" where
  "Math_hypot (Fin a) (Fin b) = Fin (sqrt (a * a + b * b))"
| "Math_hypot PInf b = PInf"
| "Math_hypot NInf b = PInf"
| "Math_hypot a PInf = PInf"
| "Math_hypot a NInf = PInf"
| "Math_hypot a b = NaN"

section \<open>Compton scattering (second script of michelson\_morley.js)\<close>

definition HC_compton :: real where
  "HC_compton = 1240"

definition LAMBDA_C :: real where
  "LAMBDA_C = 2.43"

definition toRad :: "real \<Rightarrow> real" where
  "toRad deg = deg * pi / 180"

text \<open>
  The part of the Compton page's \<open>state\<close> that \<open>updatePhysics\<close> reads and writes,
  and the six numbers it formats into the readouts (\<open>toFixed(2)\<close> and the unit
  suffix are display only). \<open>lambda\<close> and \<open>theta\<close> are read from range sliders.
  The recoil angle \<open>phi\<close> is modelled for angles between 0 and 180 degrees, where the
  tangent of the half angle is defined; no statement below is about it.
\<close>

record compton_state =
  lambda :: real
  theta :: real
  phi :: jsnum

record compton_readout =
  r_lambdaInc :: real
  r_lambdaScat :: real
  r_shift :: real
  r_E_inc :: jsnum
  r_E_scat :: jsnum
  r_K_e :: jsnum

definition updatePhysics :: "compton_state \<Rightarrow> compton_state \<times> compton_readout" where
  "updatePhysics s =
     (let thetaRad :: real = toRad (theta s);
          shift :: real = LAMBDA_C * (1 - cos thetaRad);
          lambdaPrime :: real = lambda s + shift;
          E_inc :: jsnum = Fin HC_compton / Fin (lambda s);
          E_scat :: jsnum = Fin HC_compton / Fin lambdaPrime;
          K_e :: jsnum = E_inc - E_scat;
          alpha :: jsnum = E_inc / Fin 511;
          tanTheta2 :: real = tan (thetaRad / 2);
          phi' :: jsnum =
            (if theta s = 0 then Fin 0
             else if theta s = 180 then Fin 0
             else (let cotPhi :: jsnum = (Fin 1 + alpha) * Fin tanTheta2
                   in Math_atan (Fin 1 / cotPhi)))
      in (s\<lparr>phi := phi'\<rparr>,
          \<lparr>r_lambdaInc = lambda s, r_lambdaScat = lambdaPrime, r_shift = shift,
           r_E_inc = E_inc, r_E_scat = E_scat, r_K_e = K_e\<rparr>))"

section \<open>Millikan oil drop (first script of millikan.js)\<close>

text \<open>The \<open>CONSTANTS\<close> table, in SI units.\<close>

definition g :: real where "g = 9.80"
definition rho_oil :: real where "rho_oil = 875"
definition rho_air :: real where "rho_air = 1.225"
definition viscosity :: real where "viscosity = 1.81 / 10 ^ 5"
definition e_charge :: real where "e_charge = 1.602 / 10 ^ 19"
definition plateDistance :: real where "plateDistance = 0.005"
definition scale :: real where "scale = 100000"

record OilDrop =
  radius :: jsnum
  x :: jsnum
  y :: jsnum
  vx :: jsnum
  vy :: jsnum
  q :: jsnum
  color_alpha :: real

text \<open>
  The constructor calls \<open>Math.random()\<close> six times; the six results are the
  arguments \<open>u1\<close> to \<open>u6\<close>, in the order of the calls. \<open>width\<close> and
  \<open>height\<close> are the canvas size.
\<close>

definition new_OilDrop ::
  "real \<Rightarrow> real \<Rightarrow> real \<Rightarrow> real \<Rightarrow> real \<Rightarrow> real \<Rightarrow> real \<Rightarrow> real \<Rightarrow> OilDrop" where
  "new_OilDrop width height u1 u2 u3 u4 u5 u6 =
     (let n :: real = (if u5 < 0.5 then - 1 else 1)
      in \<lparr>radius = Fin ((0.5 + u1 * 0.6) * (1 / 10 ^ 6)),
          x = Fin (u2 * 0.8 + 0.1) * (Fin width / Fin scale),
          y = Fin (u3 * 0.2) * (Fin height / Fin scale),
          vx = Fin ((u4 - 0.5) * (1 / 10 ^ 5)),
          vy = Fin 0,
          q = Fin (n * e_charge),
          color_alpha = 0.7 + u6 * 0.3\<rparr>)"

text \<open>
  \<open>update(dt)\<close> reads the global \<open>voltage\<close> and calls \<open>Math.random()\<close> twice
  (\<open>u1\<close> for the horizontal jitter, then \<open>u2\<close> for the vertical one). The drag force
  and the net force that the method also computes are never used and are left out.
  \<open>Math.pow(r, 3)\<close> is written as a product.
\<close>

definition OilDrop_update :: "jsnum \<Rightarrow> real \<Rightarrow> real \<Rightarrow> real \<Rightarrow> OilDrop \<Rightarrow> OilDrop" where
  "OilDrop_update voltage dt u1 u2 d =
     (let volume :: jsnum = Fin (4 / 3) * Fin pi * (radius d * radius d * radius d);
          mass :: jsnum = volume * Fin rho_oil;
          Fg :: jsnum = mass * Fin g;
          Fb :: jsnum = volume * Fin rho_air * Fin g;
          E :: jsnum = voltage / Fin plateDistance;
          Fe :: jsnum = q d * E;
          F_driving_y :: jsnum = Fg - Fb + Fe;
          F_driving_x :: jsnum = Fin 0;
          drag_coeff :: jsnum = Fin 6 * Fin pi * Fin viscosity * radius d;
          vy1 :: jsnum = F_driving_y / drag_coeff;
          vx1 :: jsnum = F_driving_x / drag_coeff;
          jitterMagnitude :: jsnum = (Fin (1 / 10 ^ 6) / radius d) * Fin (2 / 10 ^ 6);
          vx2 :: jsnum = vx1 + Fin (u1 - 0.5) * jitterMagnitude;
          vy2 :: jsnum = vy1 + Fin (u2 - 0.5) * jitterMagnitude
      in d\<lparr>vx := vx2, vy := vy2, x := x d + vx2 * Fin dt, y := y d + vy2 * Fin dt\<rparr>)"

text \<open>
  The voltage controls. \<open>voltage\<close> is the global that \<open>update\<close> reads;
  \<open>voltage_slider\<close> and \<open>voltage_input\<close> stand for the two DOM controls, each
  represented by the number that \<open>parseInt\<close> reads from its text (an integer,
  an infinity for an overlong digit string, or \<open>NaN\<close>). Writing a number to a control
  stores that number: the function only ever writes integers, and \<open>parseInt\<close> reads
  the decimal text of an integer back unchanged.
\<close>

record voltage_controls =
  voltage :: jsnum
  voltage_slider :: jsnum
  voltage_input :: jsnum

definition updateVoltageFromInput :: "voltage_controls \<Rightarrow> voltage_controls" where
  "updateVoltageFromInput c =
     (let val0 :: jsnum = voltage_input c;
          val1 :: jsnum = (if isNaN val0 then Fin 0 else val0);
          val2 :: jsnum = (if val1 > Fin 2000 then Fin 2000 else val1);
          val3 :: jsnum = (if val2 < Fin (- 2000) then Fin (- 2000) else val2)
      in c\<lparr>voltage := val3, voltage_slider := val3, voltage_input := val3\<rparr>)"

text \<open>An example drop of radius one micrometre carrying one negative elementary charge.\<close>

definition drop0 :: OilDrop where
  "drop0 = \<lparr>radius = Fin (1 / 10 ^ 6), x = Fin 0.004, y = Fin 0.001, vx = Fin 0.000004,
             vy = Fin 0, q = Fin (- e_charge), color_alpha = 1\<rparr>"

section \<open>Franck--Hertz experiment (frank\_hertz.js)\<close>

definition EXCITATION_ENERGY :: real where "EXCITATION_ENERGY = 4.9"
definition CONTACT_POTENTIAL :: real where "CONTACT_POTENTIAL = 2.0"

text \<open>
  A glow left by a collision, and the part of \<open>state\<close> that the physics reads and
  writes. The three parameters are read from range sliders with \<open>parseFloat\<close>.
  \<open>tubeCanvas_width\<close> is the width of the tube canvas, which the code reads from the
  DOM.
\<close>

record collision =
  c_x :: jsnum
  c_y :: jsnum
  life :: real
  opacity :: real

record fh_state =
  vAcc :: real
  vRet :: real
  temperature :: real
  collisions :: "collision list"
  tubeCanvas_width :: real

text \<open>\<open>getTemperatureFactor\<close> returns the pair \<open>(dipStrength, transmission)\<close>.\<close>

definition getTemperatureFactor :: "real \<Rightarrow> real \<times> real" where
  "getTemperatureFactor t =
     (if t < 140 then (0, 1)
      else if t \<ge> 140 \<and> t \<le> 200 then
        (let dist = \<bar>t - 180\<bar> in (exp (- (dist * dist) / (20 * 20)), 0.8))
      else (0.5, exp (- (t - 200) / 20) * 0.5))"

text \<open>
  An electron of the tube animation. The fields are those of the class \<open>Electron\<close>,
  prefixed with \<open>e_\<close>.
\<close>

record Electron =
  e_x :: jsnum
  e_y :: jsnum
  e_vx :: jsnum
  e_energy :: jsnum
  e_active :: bool
  e_color :: string

text \<open>
  \<open>Electron.update\<close>. It calls \<open>Math.random()\<close> at most once, when the electron has
  the excitation energy and the vapour allows collisions; \<open>u\<close> is the result of that
  call. It returns the electron and the state, whose collision list may have grown.
\<close>

definition Electron_update :: "fh_state \<Rightarrow> real \<Rightarrow> Electron \<Rightarrow> Electron \<times> fh_state" where
  "Electron_update st u e =
     (if \<not> e_active e then (e, st)
      else
        (let cathodeX :: real = 40;
             gridX :: real = tubeCanvas_width st - 60;
             anodeX :: real = tubeCanvas_width st - 20;
             dipStrength :: real = fst (getTemperatureFactor (temperature st))
         in if e_x e < Fin gridX then
              (let dist :: real = gridX - cathodeX;
                   E_field :: jsnum = Fin (vAcc st) / Fin dist;
                   energy1 :: jsnum = e_energy e + E_field * e_vx e;
                   x1 :: jsnum = e_x e + e_vx e;
                   vx1 :: jsnum = Fin 1 + Math_sqrt energy1 * Fin 0.5;
                   e1 = e\<lparr>e_energy := energy1, e_x := x1, e_vx := vx1\<rparr>
               in if energy1 \<ge> Fin EXCITATION_ENERGY \<and> dipStrength > 0.01 then
                    (if u < 0.2 * dipStrength then
                       (e1\<lparr>e_energy := energy1 - Fin EXCITATION_ENERGY, e_vx := Fin 0.5\<rparr>,
                        st\<lparr>collisions := collisions st @
                          [\<lparr>c_x = x1, c_y = e_y e, life = 1.0, opacity = dipStrength\<rparr>]\<rparr>)
                     else (e1, st))
                  else (e1, st))
            else if e_x e < Fin anodeX then
              (let dist :: real = anodeX - gridX;
                   E_field :: jsnum = Fin (vRet st) / Fin dist;
                   energy1 :: jsnum = e_energy e - E_field * e_vx e;
                   x1 :: jsnum = e_x e + e_vx e;
                   e1 = e\<lparr>e_energy := energy1, e_x := x1\<rparr>
               in if energy1 \<le> Fin 0 then (e1\<lparr>e_active := False, e_color := ''#555''\<rparr>, st)
                  else (e1, st))
            else (e\<lparr>e_active := False\<rparr>, st)))"

text \<open>
  \<open>reset()\<close>, which the constructor calls: a fresh electron at the cathode. It calls
  \<open>Math.random()\<close> twice; \<open>height\<close> is the height of the tube canvas.
\<close>

definition Electron_reset :: "real \<Rightarrow> real \<Rightarrow> real \<Rightarrow> Electron" where
  "Electron_reset height u1 u2 =
     \<lparr>e_x = Fin 40, e_y = Fin (50 + u1 * (height - 100)), e_vx = Fin (0.5 + u2 * 0.5),
      e_energy = Fin 0, e_active = True, e_color = ''#fff''\<rparr>"

text \<open>
  The loop of \<open>calculateCurrent\<close> over the collision orders \<open>k = 1, ..., 14\<close>, with
  its \<open>break\<close>; \<open>modulation\<close> is the running sum.
\<close>

function modulation_loop :: "real \<Rightarrow> nat \<Rightarrow> real \<Rightarrow> real" where
  "modulation_loop v k modulation =
     (if k < 15 then
        (let dropPos = real k * EXCITATION_ENERGY + CONTACT_POTENTIAL
         in if v < dropPos - 3 then modulation
            else (let diff = v - dropPos;
                      width = 1.5
                  in modulation_loop v (Suc k) (modulation + exp (- (diff * diff) / width))))
      else modulation)"
  by pat_completeness auto
termination
  by (relation "measure (\<lambda>(v, k, modulation). 15 - k)") auto

text \<open>
  \<open>calculateCurrent(v)\<close>, which reads \<open>state.temperature\<close>. The locals \<open>n\<close>,
  \<open>eRem\<close>, \<open>phase\<close> and \<open>cyclePos\<close> of the source are computed but never used and
  are left out. \<open>Math.pow(v, 1.5)\<close> is only reached with \<open>v \<ge> 0\<close>.
\<close>

definition calculateCurrent :: "fh_state \<Rightarrow> real \<Rightarrow> real" where
  "calculateCurrent st v =
     (if v < 0 then 0
      else
        (let (dipStrength, transmission) = getTemperatureFactor (temperature st);
             baseCurrent = v powr 1.5 * 0.2 * transmission;
             modulation = modulation_loop v 1 0;
             dipFactor = 1 - (0.8 * dipStrength * modulation);
             dipFactor = max 0.1 dipFactor
         in baseCurrent * dipFactor))"

text \<open>The summand of the loop for the collision order \<open>k\<close>, named for the proofs.\<close>

definition dip_term :: "real \<Rightarrow> nat \<Rightarrow> real" where
  "dip_term v k = exp (- ((v - (real k * 4.9 + 2)) * (v - (real k * 4.9 + 2))) / 1.5)"

text \<open>The page's initial parameters, with a tube canvas 800 pixels wide.\<close>

definition fh_initial :: fh_state where
  "fh_initial = \<lparr>vAcc = 0, vRet = 1.5, temperature = 180, collisions = [],
                  tubeCanvas_width = 800\<rparr>"

section \<open>Photoelectric effect (second script of millikan.js)\<close>

definition HC :: real where "HC = 1240"
definition SCALE_SPEED :: real where "SCALE_SPEED = 2"

text \<open>The work functions of the \<open>METALS\<close> table, in eV.\<close>

definition METALS_phi :: "string \<Rightarrow> real option" where
  "METALS_phi name =
     (if name = ''sodium'' then Some 2.36
      else if name = ''calcium'' then Some 2.90
      else if name = ''zinc'' then Some 4.30
      else if name = ''copper'' then Some 4.70
      else if name = ''platinum'' then Some 6.35
      else if name = ''unknown'' then Some 3.50
      else None)"

text \<open>
  An electron in the tube; the fields \<open>x\<close>, \<open>y\<close>, \<open>vx\<close>, \<open>vy\<close>, \<open>ke\<close> of the
  source are prefixed with \<open>p_\<close>.
\<close>

record photoelectron =
  p_x :: jsnum
  p_y :: jsnum
  p_vx :: jsnum
  p_vy :: jsnum
  p_ke :: jsnum
  dead :: bool

text \<open>
  The page's \<open>state\<close> (\<open>lambda\<close>, \<open>voltage\<close> and \<open>time\<close> are prefixed with
  \<open>ph_\<close>; the three parameters are read from range sliders), together with what the
  frame function reads and writes outside it: the number last shown in the current
  display (before \<open>toFixed(2)\<close>), the canvas width, and the number of calls of
  \<open>Math.random()\<close> made so far.
\<close>

record photo_state =
  ph_lambda :: real
  intensity :: real
  ph_voltage :: real
  workFunction :: real
  electrons :: "photoelectron list"
  ammeterCurrent :: real
  ph_time :: nat
  wavePhase :: real
  hitHistory :: "real list"
  lastUIRefresh :: real
  current_display :: real
  canvas_width :: real
  random_calls :: nat

text \<open>
  \<open>Math.random()\<close> cannot be seeded and has no state in the program. Its results
  are an input of the model: \<open>rnd k\<close> is the result of the \<open>k\<close>-th call.
\<close>

definition Math_random :: "(nat \<Rightarrow> real) \<Rightarrow> photo_state \<Rightarrow> real \<times> photo_state" where
  "Math_random rnd s = (rnd (random_calls s), s\<lparr>random_calls := Suc (random_calls s)\<rparr>)"

definition spawnElectron ::
  "(nat \<Rightarrow> real) \<Rightarrow> real \<Rightarrow> real \<Rightarrow> real \<Rightarrow> photo_state \<Rightarrow> photo_state" where
  "spawnElectron rnd ex ey normalAngle s =
     (let photonE :: jsnum = Fin HC / Fin (ph_lambda s);
          workFn :: jsnum = Fin (workFunction s)
      in if photonE \<le> workFn then s
         else
           (let maxKE :: jsnum = photonE - workFn;
                (u1, s1) = Math_random rnd s;
                ke :: jsnum = maxKE * Fin (0.9 + u1 * 0.1);
                speed :: jsnum = Math_sqrt ke * Fin SCALE_SPEED;
                (u2, s2) = Math_random rnd s1;
                spread :: real = (u2 - 0.5) * 1.0;
                angle :: real = normalAngle + spread
            in s2\<lparr>electrons := electrons s2 @
                 [\<lparr>p_x = Fin ex, p_y = Fin ey,
                   p_vx = Math_cos (Fin angle) * speed,
                   p_vy = Math_sin (Fin angle) * speed,
                   p_ke = ke, dead = False\<rparr>]\<rparr>))"

definition spawnRandomElectron :: "(nat \<Rightarrow> real) \<Rightarrow> photo_state \<Rightarrow> photo_state" where
  "spawnRandomElectron rnd s =
     (let (u, s1) = Math_random rnd s;
          theta :: real = (u - 0.5) * 2 * 0.6;
          cx :: real = 350;
          cy :: real = 250;
          r :: real = 180;
          ex :: real = cx + r * cos theta;
          ey :: real = cy + r * sin theta;
          normalAngle :: real = theta + pi
      in spawnElectron rnd (ex - 2) ey normalAngle s1)"

text \<open>The loop \<open>for (let i = 0; i < count; i++) spawnRandomElectron()\<close>.\<close>

primrec guaranteed_spawns :: "(nat \<Rightarrow> real) \<Rightarrow> nat \<Rightarrow> photo_state \<Rightarrow> photo_state" where
  "guaranteed_spawns rnd 0 s = s"
| "guaranteed_spawns rnd (Suc n) s = guaranteed_spawns rnd n (spawnRandomElectron rnd s)"

text \<open>The block of \<open>loop\<close> under the comment "Spawning Logic".\<close>

definition spawning_logic :: "(nat \<Rightarrow> real) \<Rightarrow> photo_state \<Rightarrow> photo_state" where
  "spawning_logic rnd s =
     (if intensity s > 0 then
        (let spawnRate :: real = intensity s * 0.03;
             count :: int = \<lfloor>spawnRate\<rfloor>;
             remainder :: real = spawnRate - real_of_int count;
             s1 = guaranteed_spawns rnd (nat count) s;
             (u, s2) = Math_random rnd s1
         in if u < remainder then spawnRandomElectron rnd s2 else s2)
      else s)"

definition recordHit :: "real \<Rightarrow> photo_state \<Rightarrow> photo_state" where
  "recordHit timestamp s = s\<lparr>hitHistory := hitHistory s @ [timestamp]\<rparr>"

text \<open>
  The body of the \<open>forEach\<close> of \<open>updateElectrons\<close> for one electron: the moved
  electron, and whether it hit the anode (when \<open>recordHit\<close> is called).
\<close>

definition electron_step :: "real \<Rightarrow> real \<Rightarrow> photoelectron \<Rightarrow> photoelectron \<times> bool" where
  "electron_step forceFactor width e =
     (let tubeTop :: real = 250 - 120;
          tubeBottom :: real = 250 + 120;
          vx1 :: jsnum = p_vx e - Fin forceFactor;
          x1 :: jsnum = p_x e + vx1;
          y1 :: jsnum = p_y e + p_vy e;
          hit = (x1 \<le> Fin (300 + 10) \<and> x1 \<ge> Fin 300 \<and>
                 Math_abs (y1 - Fin 250) < Fin (200 / 2) \<and> \<not> dead e);
          dead1 = (dead e \<or> hit);
          dist :: jsnum = Math_hypot (x1 - Fin 350) (y1 - Fin 250);
          dead2 = (dead1 \<or> (dist > Fin 180 \<and> x1 > Fin 350));
          dead3 = (dead2 \<or> x1 < Fin 300);
          dead4 = (dead3 \<or> (y1 < Fin tubeTop \<or> y1 > Fin tubeBottom));
          dead5 = (dead4 \<or> (x1 < Fin 0 \<or> x1 > Fin width))
      in (e\<lparr>p_vx := vx1, p_x := x1, p_y := y1, dead := dead5\<rparr>, hit))"

fun forEach_electron ::
  "real \<Rightarrow> real \<Rightarrow> photoelectron list \<Rightarrow> photo_state \<Rightarrow> photoelectron list \<times> photo_state" where
  "forEach_electron timestamp forceFactor [] s = ([], s)"
| "forEach_electron timestamp forceFactor (e # es) s =
     (let (e', hit) = electron_step forceFactor (canvas_width s) e;
          s1 = (if hit then recordHit timestamp s else s);
          (es', s2) = forEach_electron timestamp forceFactor es s1
      in (e' # es', s2))"

definition updateElectrons :: "real \<Rightarrow> photo_state \<Rightarrow> photo_state" where
  "updateElectrons timestamp s =
     (let forceFactor :: real = ph_voltage s * 0.05;
          (es, s1) = forEach_electron timestamp forceFactor (electrons s) s
      in s1\<lparr>electrons := filter (\<lambda>e. \<not> dead e) es\<rparr>)"

definition calculateRealCurrent :: "real \<Rightarrow> photo_state \<Rightarrow> photo_state" where
  "calculateRealCurrent timestamp s =
     (let windowSize :: real = 500;
          history = filter (\<lambda>t. (timestamp - t) < windowSize) (hitHistory s);
          count :: nat = length history;
          scale :: real = 0.2;
          current :: real = real count * scale * (1000 / windowSize);
          smoothed :: real = ammeterCurrent s * 0.9 + current * 0.1;
          s1 = s\<lparr>hitHistory := history, ammeterCurrent := smoothed\<rparr>
      in if lastUIRefresh s1 = 0 \<or> timestamp - lastUIRefresh s1 > 100
         then s1\<lparr>current_display := smoothed, lastUIRefresh := timestamp\<rparr>
         else s1)"

text \<open>
  One frame: \<open>loop(timestamp)\<close> without its drawing calls. \<open>run\<close> is a sequence of
  frames at the given timestamps, with the parameters left alone in between.
\<close>

definition loop :: "(nat \<Rightarrow> real) \<Rightarrow> real \<Rightarrow> photo_state \<Rightarrow> photo_state" where
  "loop rnd timestamp s =
     (let s1 = s\<lparr>ph_time := ph_time s + 1, wavePhase := wavePhase s - 0.1\<rparr>;
          s2 = updateElectrons timestamp s1;
          s3 = spawning_logic rnd s2
      in calculateRealCurrent timestamp s3)"

fun run :: "(nat \<Rightarrow> real) \<Rightarrow> real list \<Rightarrow> photo_state \<Rightarrow> photo_state" where
  "run rnd [] s = s"
| "run rnd (timestamp # rest) s = run rnd rest (loop rnd timestamp s)"

text \<open>The page's initial state, on a canvas 800 pixels wide.\<close>

definition photo_initial :: photo_state where
  "photo_initial = \<lparr>ph_lambda = 510, intensity = 5, ph_voltage = 0, workFunction = 2.36,
     electrons = [], ammeterCurrent = 0, ph_time = 0, wavePhase = 0, hitHistory = [],
     lastUIRefresh = 0, current_display = 0, canvas_width = 800, random_calls = 0\<rparr>"

text \<open>
  Two names used in the statements below: the guard of \<open>spawnElectron\<close>, and two
  sequences of \<open>Math.random()\<close> results agreeing on the calls number \<open>a\<close> to
  \<open>b - 1\<close>.
\<close>

definition below_threshold :: "photo_state \<Rightarrow> bool" where
  "below_threshold s \<longleftrightarrow> Fin HC / Fin (ph_lambda s) \<le> Fin (workFunction s)"

definition agree_on :: "(nat \<Rightarrow> real) \<Rightarrow> (nat \<Rightarrow> real) \<Rightarrow> nat \<Rightarrow> nat \<Rightarrow> bool" where
  "agree_on rnd1 rnd2 a b \<longleftrightarrow> (\<forall>i \<in> {a..<b}. rnd1 i = rnd2 i)"

section \<open>Finite particles\<close>

text \<open>
  \<open>Electron_finite\<close>: position and velocity of an electron of the tube animation are
  finite numbers.

  \<open>Electron_updates\<close>: the successive calls of \<open>update\<close> on one electron, one per
  frame, each with the state of its frame (the sliders may have moved in between)
  and with the result of its call of \<open>Math.random()\<close>.

  \<open>Electron_in_range\<close>, for a tube canvas of width \<open>w\<close>: position, velocity and
  energy are finite and inside explicit bounds, the horizontal position between
  the cathode and 40 pixels past the right edge of the canvas, the velocity between
  0 and 30 pixels per frame, the energy between -100 and 3100 eV.
  \<open>Electron_bounded\<close> is the invariant of the active electrons while the
  accelerating voltage stays between 0 and 100 V: the electron is in range, its
  energy is not negative, and as long as it is left of the grid its energy is at
  most \<open>100 / dist\<close> times its distance from the cathode (\<open>dist = gridX - cathodeX\<close>
  is the canvas width minus 100).

  \<open>photoelectron_in_tube\<close>: a photoelectron is inside the region that
  \<open>updateElectrons\<close> leaves alive, with velocity components of magnitude at most 240
  pixels per frame. \<open>photoelectron_in_range\<close>: its position and velocity are finite
  and of magnitude at most 1000.

  Finite numbers being modelled as exact reals, the properties of finite values
  below are stated for bounded inputs and with explicit bounds on the results, far
  from the largest number, so that they do not rest on the absence of overflow in
  the model.
\<close>

definition Electron_finite :: "Electron \<Rightarrow> bool" where
  "Electron_finite e \<longleftrightarrow> isFinite (e_x e) \<and> isFinite (e_y e) \<and> isFinite (e_vx e)"

fun Electron_updates :: "(fh_state \<times> real) list \<Rightarrow> Electron \<Rightarrow> Electron" where
  "Electron_updates [] e = e"
| "Electron_updates ((st, u) # frames) e = Electron_updates frames (fst (Electron_update st u e))"

definition Electron_in_range :: "real \<Rightarrow> Electron \<Rightarrow> bool" where
  "Electron_in_range w e \<longleftrightarrow>
     Fin 40 \<le> e_x e \<and> e_x e \<le> Fin (w + 40) \<and>
     Fin (- 50) \<le> e_y e \<and> e_y e \<le> Fin 100050 \<and>
     Fin 0 \<le> e_vx e \<and> e_vx e \<le> Fin 30 \<and>
     Fin (- 100) \<le> e_energy e \<and> e_energy e \<le> Fin 3100"

definition Electron_bounded :: "real \<Rightarrow> Electron \<Rightarrow> bool" where
  "Electron_bounded w e \<longleftrightarrow>
     Electron_in_range w e \<and> Fin 0 \<le> e_energy e \<and>
     (e_x e < Fin (w - 60) \<longrightarrow> e_energy e \<le> Fin 100 / Fin (w - 100) * (e_x e - Fin 40))"

definition photoelectron_in_tube :: "photoelectron \<Rightarrow> bool" where
  "photoelectron_in_tube e \<longleftrightarrow>
     Fin 300 \<le> p_x e \<and> p_x e \<le> Fin 530 \<and> Fin 130 \<le> p_y e \<and> p_y e \<le> Fin 370 \<and>
     Fin (- 240) \<le> p_vx e \<and> p_vx e \<le> Fin 240 \<and> Fin (- 240) \<le> p_vy e \<and> p_vy e \<le> Fin 240"

definition photoelectron_in_range :: "photoelectron \<Rightarrow> bool" where
  "photoelectron_in_range e \<longleftrightarrow>
     Fin (- 1000) \<le> p_x e \<and> p_x e \<le> Fin 1000 \<and> Fin (- 1000) \<le> p_y e \<and> p_y e \<le> Fin 1000 \<and>
     Fin (- 1000) \<le> p_vx e \<and> p_vx e \<le> Fin 1000 \<and> Fin (- 1000) \<le> p_vy e \<and> p_vy e \<le> Fin 1000"

section \<open>Verified properties\<close>

subsection \<open>Arithmetic of finite numbers\<close>

lemma Fin_plus: "Fin a + Fin b = Fin (a + b)"
  by simp

lemma Fin_minus [simp]: "Fin a - Fin b = Fin (a - b)"
  by (simp add: minus_jsnum_def)

lemma Fin_times: "Fin a * Fin b = Fin (a * b)"
  by simp

lemma Fin_div [simp]: "b \<noteq> 0 \<Longrightarrow> Fin a / Fin b = Fin (a / b)"
  by simp

lemma sqrt2_bounds: "1.4142 < sqrt 2" "sqrt 2 < (1.4143::real)"
proof -
  show "1.4142 < sqrt 2"
    by (rule real_less_rsqrt) (simp add: power2_eq_square)
  show "sqrt 2 < (1.4143::real)"
    by (rule real_less_lsqrt) (simp_all add: power2_eq_square)
qed

subsection \<open>Compton readouts\<close>

lemma compton_scenario:
  fixes shift :: real
  assumes "shift = LAMBDA_C * (1 - cos (45 * pi / 180))"
  shows "\<bar>shift - 0.711\<bar> < 0.001" "\<bar>71 + shift - 71.711\<bar> < 0.001"
    "\<bar>HC_compton / 71 - 17.46\<bar> < 0.005"
    "\<bar>HC_compton / (71 + shift) - 17.29\<bar> < 0.005"
    "\<bar>(HC_compton / 71 - HC_compton / (71 + shift)) - 0.17\<bar> < 0.005"
proof -
  have "cos (45 * pi / 180) = sqrt 2 / 2"
    using cos_45 by simp
  with assms have sh: "shift = 2.43 - 1.215 * sqrt 2"
    by (simp add: LAMBDA_C_def algebra_simps)
  have lo: "0.7116 < shift" and hi: "shift < 0.7118"
    using sqrt2_bounds by (simp_all add: sh)
  show "\<bar>shift - 0.711\<bar> < 0.001" "\<bar>71 + shift - 71.711\<bar> < 0.001"
    using lo hi by simp_all
  show "\<bar>HC_compton / 71 - 17.46\<bar> < 0.005"
    by (simp add: HC_compton_def)
  have pos: "0 < 71 + shift"
    using lo by simp
  have s1: "17.2914 < HC_compton / (71 + shift)"
    using hi pos by (simp add: HC_compton_def pos_less_divide_eq)
  have s2: "HC_compton / (71 + shift) < 17.2916"
    using lo pos by (simp add: HC_compton_def pos_divide_less_eq)
  have i1: "17.4647 < HC_compton / 71" "HC_compton / 71 < 17.4648"
    by (simp_all add: HC_compton_def)
  have near: "\<And>x y::real. 17.2914 < x \<Longrightarrow> x < 17.2916 \<Longrightarrow>
      17.4647 < y \<Longrightarrow> y < 17.4648 \<Longrightarrow>
      \<bar>x - 17.29\<bar> < 0.005 \<and> \<bar>(y - x) - 0.17\<bar> < 0.005"
    by simp
  show "\<bar>HC_compton / (71 + shift) - 17.29\<bar> < 0.005"
    using near [OF s1 s2 i1] by blast
  show "\<bar>(HC_compton / 71 - HC_compton / (71 + shift)) - 0.17\<bar> < 0.005"
    using near [OF s1 s2 i1] by blast
qed

text \<open>
  Claim C1. For every incident wavelength \<open>\<lambda> > 0\<close> and every angle \<open>\<theta>\<close> (in degrees),
  \<open>updatePhysics\<close> computes the shift \<open>LAMBDA_C * (1 - cos \<theta>)\<close>, the scattered
  wavelength \<open>\<lambda>' = \<lambda> + shift\<close>, the finite energies \<open>HC / \<lambda>\<close> and \<open>HC / \<lambda>'\<close> and
  the electron energy \<open>HC / \<lambda> - HC / \<lambda>'\<close>. At \<open>\<lambda> = 71\<close> pm and \<open>\<theta> = 45\<close> degrees
  these are 0.711 pm and 71.711 pm to within 0.001, and 17.46 keV, 17.29 keV and
  0.17 keV to within 0.005 (numbers are exact reals here, so "within floating-point
  rounding" is read as agreement to the printed digits).
\<close>

theorem compton_updatePhysics_readout:
  assumes "0 < lambda s"
  shows "(let r = snd (updatePhysics s);
              shift = LAMBDA_C * (1 - cos (theta s * pi / 180));
              lambda' = lambda s + shift;
              E_inc = HC_compton / lambda s;
              E_scat = HC_compton / lambda'
          in r_shift r = shift \<and> r_lambdaScat r = lambda' \<and>
             r_E_inc r = Fin E_inc \<and> r_E_scat r = Fin E_scat \<and>
             r_K_e r = Fin (E_inc - E_scat) \<and>
             (lambda s = 71 \<and> theta s = 45 \<longrightarrow>
                \<bar>shift - 0.711\<bar> < 0.001 \<and> \<bar>lambda' - 71.711\<bar> < 0.001 \<and>
                \<bar>E_inc - 17.46\<bar> < 0.005 \<and> \<bar>E_scat - 17.29\<bar> < 0.005 \<and>
                \<bar>(E_inc - E_scat) - 0.17\<bar> < 0.005))"
proof -
  have "0 \<le> LAMBDA_C * (1 - cos (theta s * pi / 180))"
    by (simp add: LAMBDA_C_def)
  with assms have nz: "lambda s + LAMBDA_C * (1 - cos (theta s * pi / 180)) \<noteq> 0"
    by linarith
  have general: "r_shift (snd (updatePhysics s)) = LAMBDA_C * (1 - cos (theta s * pi / 180))"
    "r_lambdaScat (snd (updatePhysics s)) = lambda s + LAMBDA_C * (1 - cos (theta s * pi / 180))"
    "r_E_inc (snd (updatePhysics s)) = Fin (HC_compton / lambda s)"
    "r_E_scat (snd (updatePhysics s)) =
       Fin (HC_compton / (lambda s + LAMBDA_C * (1 - cos (theta s * pi / 180))))"
    "r_K_e (snd (updatePhysics s)) =
       Fin (HC_compton / lambda s -
            HC_compton / (lambda s + LAMBDA_C * (1 - cos (theta s * pi / 180))))"
    using assms nz by (simp_all add: updatePhysics_def Let_def toRad_def)
  show ?thesis
    unfolding Let_def
    using general compton_scenario [OF refl] by auto
qed

theorem compton_updatePhysics_readout_witness:
  "(let r = snd (updatePhysics \<lparr>lambda = 71, theta = 45, phi = Fin 0\<rparr>)
    in \<bar>r_shift r - 0.711\<bar> < 0.001 \<and> \<bar>r_lambdaScat r - 71.711\<bar> < 0.001 \<and>
       r_E_inc r = Fin (HC_compton / 71) \<and> \<bar>HC_compton / 71 - 17.46\<bar> < 0.005 \<and>
       r_E_scat r = Fin (HC_compton / r_lambdaScat r) \<and>
       \<bar>HC_compton / r_lambdaScat r - 17.29\<bar> < 0.005 \<and>
       r_K_e r = Fin (HC_compton / 71 - HC_compton / r_lambdaScat r) \<and>
       \<bar>(HC_compton / 71 - HC_compton / r_lambdaScat r) - 0.17\<bar> < 0.005)"
  using compton_updatePhysics_readout [of "\<lparr>lambda = 71, theta = 45, phi = Fin 0\<rparr>"]
  by (simp add: Let_def)

subsection \<open>Oil drops\<close>

lemma isFinite_iff: "isFinite a \<longleftrightarrow> (\<exists>r. a = Fin r)"
  by (cases a) auto

lemma new_OilDrop_radius:
  assumes "0 \<le> u1" "u1 < 1"
  shows "\<exists>r. radius (new_OilDrop w h u1 u2 u3 u4 u5 u6) = Fin r \<and> 5 / 10 ^ 7 \<le> r \<and> r < 11 / 10 ^ 7"
proof -
  have "radius (new_OilDrop w h u1 u2 u3 u4 u5 u6) = Fin ((0.5 + u1 * 0.6) * (1 / 10 ^ 6))"
    by (simp add: new_OilDrop_def Let_def)
  moreover have "5 / 10 ^ 7 \<le> (0.5 + u1 * 0.6) * (1 / 10 ^ 6)"
    "(0.5 + u1 * 0.6) * (1 / 10 ^ 6) < 11 / 10 ^ 7"
    using assms by simp_all
  ultimately show ?thesis by blast
qed

lemma OilDrop_update_radius [simp]: "radius (OilDrop_update V dt u1 u2 d) = radius d"
  by (simp add: OilDrop_update_def Let_def)

lemma OilDrop_update_q [simp]: "q (OilDrop_update V dt u1 u2 d) = q d"
  by (simp add: OilDrop_update_def Let_def)

lemma OilDrop_update_velocity:
  assumes "radius d = Fin r" "0 < r" "q d = Fin qd"
  shows "vy (OilDrop_update (Fin volt) dt u1 u2 d) =
           Fin (((4 / 3) * pi * r ^ 3 * rho_oil * g - (4 / 3) * pi * r ^ 3 * rho_air * g
                 + qd * volt / plateDistance) / (6 * pi * viscosity * r)
                + (u2 - 0.5) * ((1 / 10 ^ 6 / r) * (2 / 10 ^ 6)))"
    and "vx (OilDrop_update (Fin volt) dt u1 u2 d) =
           Fin (0 + (u1 - 0.5) * ((1 / 10 ^ 6 / r) * (2 / 10 ^ 6)))"
proof -
  have drag: "6 * pi * viscosity * r \<noteq> 0"
    using assms(2) by (simp add: viscosity_def)
  have pd: "plateDistance \<noteq> 0" by (simp add: plateDistance_def)
  show "vy (OilDrop_update (Fin volt) dt u1 u2 d) =
           Fin (((4 / 3) * pi * r ^ 3 * rho_oil * g - (4 / 3) * pi * r ^ 3 * rho_air * g
                 + qd * volt / plateDistance) / (6 * pi * viscosity * r)
                + (u2 - 0.5) * ((1 / 10 ^ 6 / r) * (2 / 10 ^ 6)))"
    using assms drag pd
    by (simp add: OilDrop_update_def Let_def power3_eq_cube field_simps)
  show "vx (OilDrop_update (Fin volt) dt u1 u2 d) =
           Fin (0 + (u1 - 0.5) * ((1 / 10 ^ 6 / r) * (2 / 10 ^ 6)))"
    using assms drag pd
    by (simp add: OilDrop_update_def Let_def field_simps)
qed

lemma OilDrop_update_position:
  "x (OilDrop_update V dt u1 u2 d) = x d + vx (OilDrop_update V dt u1 u2 d) * Fin dt"
  "y (OilDrop_update V dt u1 u2 d) = y d + vy (OilDrop_update V dt u1 u2 d) * Fin dt"
  by (simp_all add: OilDrop_update_def Let_def)

lemma OilDrop_update_forgets_velocity:
  "OilDrop_update V dt u1 u2 (d\<lparr>vx := a, vy := b\<rparr>) = OilDrop_update V dt u1 u2 d"
  by (simp add: OilDrop_update_def Let_def)

text \<open>
  Claim C5. For every oil drop (radius \<open>r > 0\<close>, as the constructor makes it) and
  every frame time \<open>dt\<close>, \<open>update\<close> sets the vertical velocity to the terminal
  velocity \<open>(Fg - Fb + Fe) / (6 \<pi> \<eta> r)\<close> plus the jitter term and the horizontal
  velocity to \<open>0\<close> plus the jitter term, with \<open>Fg = 4/3 \<pi> r\<^sup>3 \<rho>\<^sub>o\<^sub>i\<^sub>l g\<close>,
  \<open>Fb = 4/3 \<pi> r\<^sup>3 \<rho>\<^sub>a\<^sub>i\<^sub>r g\<close> and \<open>Fe = q V / d\<close>; the position advances by the
  new velocity times \<open>dt\<close>; and the result is the same whatever the previous velocity
  was.
\<close>

theorem OilDrop_update_terminal_velocity:
  assumes "radius d = Fin r" "0 < r" "q d = Fin qd"
  shows "(let d' = OilDrop_update (Fin volt) dt u1 u2 d;
              Fg = (4 / 3) * pi * r ^ 3 * rho_oil * g;
              Fb = (4 / 3) * pi * r ^ 3 * rho_air * g;
              Fe = qd * volt / plateDistance;
              drag = 6 * pi * viscosity * r;
              jitter = (1 / 10 ^ 6 / r) * (2 / 10 ^ 6)
          in vy d' = Fin ((Fg - Fb + Fe) / drag + (u2 - 0.5) * jitter) \<and>
             vx d' = Fin (0 + (u1 - 0.5) * jitter) \<and>
             x d' = x d + vx d' * Fin dt \<and>
             y d' = y d + vy d' * Fin dt \<and>
             (\<forall>a b. OilDrop_update (Fin volt) dt u1 u2 (d\<lparr>vx := a, vy := b\<rparr>) = d'))"
  unfolding Let_def
  using OilDrop_update_velocity [OF assms, where volt = volt and dt = dt and ?u1.0 = u1 and ?u2.0 = u2]
    OilDrop_update_position [where V = "Fin volt" and dt = dt and ?u1.0 = u1 and ?u2.0 = u2 and d = d]
    OilDrop_update_forgets_velocity [where V = "Fin volt" and dt = dt and ?u1.0 = u1 and ?u2.0 = u2 and d = d]
  by simp

theorem OilDrop_update_terminal_velocity_witness:
  "(let d' = OilDrop_update (Fin 500) 0.016 0.5 0.5 drop0
    in vx d' = Fin 0 \<and> x d' = Fin 0.004 \<and>
       (\<forall>a b. OilDrop_update (Fin 500) 0.016 0.5 0.5 (drop0\<lparr>vx := a, vy := b\<rparr>) = d'))"
  using OilDrop_update_terminal_velocity [where d = drop0 and r = "1 / 10 ^ 6" and qd = "- e_charge" and volt = 500
      and dt = "0.016" and ?u1.0 = "0.5" and ?u2.0 = "0.5"]
  by (simp add: drop0_def Let_def)


text \<open>
  Bounds for the velocity and the position after \<open>update\<close>, for a radius between
  0.4 and 1.2 micrometres (the constructor's range is inside), one elementary charge
  and a voltage between the clamp bounds.
\<close>

lemma quotient_bound:
  fixes n d :: real
  assumes "\<bar>n\<bar> \<le> N" "0 < D" "D \<le> d"
  shows "\<bar>n / d\<bar> \<le> N / D"
proof -
  have d: "0 < d" using assms(2,3) by linarith
  have "\<bar>n / d\<bar> = \<bar>n\<bar> / d" using d by simp
  also have "\<dots> \<le> N / D"
    using assms d by (intro frac_le) simp_all
  finally show ?thesis .
qed

lemma drag_coeff_lower:
  fixes r :: real
  assumes "5 / 10 ^ 7 \<le> r"
  shows "1 / 10 ^ 10 \<le> 6 * pi * viscosity * r"
proof -
  have "2 * (5 / 10 ^ 7) \<le> pi * r"
    using assms pi_ge_two by (intro mult_mono) simp_all
  then show ?thesis by (simp add: viscosity_def)
qed

lemma drag_coeff_lower_wide:
  fixes r :: real
  assumes "4 / 10 ^ 7 \<le> r"
  shows "8 / 10 ^ 11 \<le> 6 * pi * viscosity * r"
proof -
  have "2 * (4 / 10 ^ 7) \<le> pi * r"
    using assms pi_ge_two by (intro mult_mono) simp_all
  then show ?thesis by (simp add: viscosity_def)
qed

lemma driving_force_bound:
  fixes r qd volt :: real
  assumes "0 \<le> r" "r \<le> 12 / 10 ^ 7" "\<bar>qd\<bar> \<le> 2 / 10 ^ 19" "\<bar>volt\<bar> \<le> 2000"
  shows "\<bar>(4 / 3) * pi * r ^ 3 * rho_oil * g - (4 / 3) * pi * r ^ 3 * rho_air * g
          + qd * volt / plateDistance\<bar> \<le> 2 / 10 ^ 13"
proof -
  have r3: "0 \<le> r ^ 3" "r ^ 3 \<le> (12 / 10 ^ 7) ^ 3"
    using assms(1,2) by (simp_all add: power_mono)
  have pr: "0 \<le> pi * r ^ 3" "pi * r ^ 3 \<le> 4 * (12 / 10 ^ 7) ^ 3"
    using r3 pi_less_4 by (simp_all add: mult_mono)
  have grav: "(4 / 3) * pi * r ^ 3 * rho_oil * g - (4 / 3) * pi * r ^ 3 * rho_air * g
      = (pi * r ^ 3) * ((4 / 3) * (rho_oil - rho_air) * g)"
    by (simp add: algebra_simps)
  have c: "(0::real) \<le> (4 / 3) * (rho_oil - rho_air) * g" "(4 / 3) * (rho_oil - rho_air) * g \<le> 12000"
    by (simp_all add: rho_oil_def rho_air_def g_def)
  have g0: "0 \<le> (pi * r ^ 3) * ((4 / 3) * (rho_oil - rho_air) * g)"
    using pr(1) c(1) by (rule mult_nonneg_nonneg)
  have "(pi * r ^ 3) * ((4 / 3) * (rho_oil - rho_air) * g) \<le> (4 * (12 / 10 ^ 7) ^ 3) * 12000"
    by (rule mult_mono [OF pr(2) c(2) _ c(1)]) simp
  also have "\<dots> \<le> 1 / 10 ^ 13" by (simp add: power_divide)
  finally have g1: "(pi * r ^ 3) * ((4 / 3) * (rho_oil - rho_air) * g) \<le> 1 / 10 ^ 13" .
  have "\<bar>qd * volt\<bar> \<le> (2 / 10 ^ 19) * 2000"
    unfolding abs_mult using assms(3,4) by (intro mult_mono) simp_all
  then have e: "\<bar>qd * volt / plateDistance\<bar> \<le> 1 / 10 ^ 13"
    by (simp add: plateDistance_def)
  show ?thesis
    unfolding grav using g0 g1 e by linarith
qed

lemma jitter_bound:
  fixes r u :: real
  assumes "4 / 10 ^ 7 \<le> r" "0 \<le> u" "u \<le> 1"
  shows "\<bar>(u - 0.5) * ((1 / 10 ^ 6 / r) * (2 / 10 ^ 6))\<bar> \<le> 3 / 10 ^ 6"
proof -
  have r: "0 < r" using assms(1) by simp
  have q: "0 \<le> 1 / 10 ^ 6 / r" "1 / 10 ^ 6 / r \<le> 3"
    using assms(1) r by (simp_all add: field_simps)
  have "(1 / 10 ^ 6 / r) * (2 / 10 ^ 6) \<le> 3 * (2 / 10 ^ 6)"
    using q by (intro mult_right_mono) simp_all
  then have j: "0 \<le> (1 / 10 ^ 6 / r) * (2 / 10 ^ 6)" "(1 / 10 ^ 6 / r) * (2 / 10 ^ 6) \<le> 6 / 10 ^ 6"
    using q(1) by simp_all
  have u: "\<bar>u - 0.5\<bar> \<le> 0.5" using assms(2,3) by (simp add: abs_if split: if_splits)
  have "\<bar>(u - 0.5) * ((1 / 10 ^ 6 / r) * (2 / 10 ^ 6))\<bar> = \<bar>u - 0.5\<bar> * ((1 / 10 ^ 6 / r) * (2 / 10 ^ 6))"
    using j(1) by (simp add: abs_mult)
  also have "\<dots> \<le> 0.5 * (6 / 10 ^ 6)"
    using u j by (intro mult_mono) simp_all
  finally show ?thesis by simp
qed

lemma OilDrop_update_velocity_bounds:
  assumes "radius d = Fin r" "4 / 10 ^ 7 \<le> r" "r \<le> 12 / 10 ^ 7"
    and "q d = Fin qd" "\<bar>qd\<bar> \<le> 2 / 10 ^ 19" "\<bar>volt\<bar> \<le> 2000"
    and "0 \<le> u1" "u1 \<le> 1" "0 \<le> u2" "u2 \<le> 1"
  shows "\<exists>vx' vy'. vx (OilDrop_update (Fin volt) dt u1 u2 d) = Fin vx' \<and> \<bar>vx'\<bar> \<le> 1 / 10 ^ 5 \<and>
                   vy (OilDrop_update (Fin volt) dt u1 u2 d) = Fin vy' \<and> \<bar>vy'\<bar> \<le> 1 / 100"
proof -
  have r: "0 < r" "0 \<le> r" using assms(2) by simp_all
  note v = OilDrop_update_velocity [OF assms(1) r(1) assms(4),
      where volt = volt and dt = dt and ?u1.0 = u1 and ?u2.0 = u2]
  let ?N = "(4 / 3) * pi * r ^ 3 * rho_oil * g - (4 / 3) * pi * r ^ 3 * rho_air * g
      + qd * volt / plateDistance"
  have "\<bar>?N / (6 * pi * viscosity * r)\<bar> \<le> (2 / 10 ^ 13) / (8 / 10 ^ 11)"
    by (rule quotient_bound [OF driving_force_bound [OF r(2) assms(3,5,6)] _
          drag_coeff_lower_wide [OF assms(2)]]) simp
  then have t: "\<bar>?N / (6 * pi * viscosity * r)\<bar> \<le> 3 / 10 ^ 3" by simp
  have jy: "\<bar>(u2 - 0.5) * ((1 / 10 ^ 6 / r) * (2 / 10 ^ 6))\<bar> \<le> 3 / 10 ^ 6"
    by (rule jitter_bound [OF assms(2,9,10)])
  have jx: "\<bar>(u1 - 0.5) * ((1 / 10 ^ 6 / r) * (2 / 10 ^ 6))\<bar> \<le> 3 / 10 ^ 6"
    by (rule jitter_bound [OF assms(2,7,8)])
  have add: "\<And>a b :: real. \<bar>a\<bar> \<le> 3 / 10 ^ 3 \<Longrightarrow> \<bar>b\<bar> \<le> 3 / 10 ^ 6 \<Longrightarrow> \<bar>a + b\<bar> \<le> 1 / 100"
    by (simp add: abs_if split: if_splits)
  have zero: "\<And>b :: real. \<bar>b\<bar> \<le> 3 / 10 ^ 6 \<Longrightarrow> \<bar>0 + b\<bar> \<le> 1 / 10 ^ 5"
    by (simp add: abs_if split: if_splits)
  have by': "\<bar>?N / (6 * pi * viscosity * r) + (u2 - 0.5) * ((1 / 10 ^ 6 / r) * (2 / 10 ^ 6))\<bar> \<le> 1 / 100"
    by (rule add [OF t jy])
  have bx: "\<bar>0 + (u1 - 0.5) * ((1 / 10 ^ 6 / r) * (2 / 10 ^ 6))\<bar> \<le> 1 / 10 ^ 5"
    by (rule zero [OF jx])
  from v by' bx show ?thesis by blast
qed

lemma OilDrop_update_position_bounds:
  assumes "radius d = Fin r" "4 / 10 ^ 7 \<le> r" "r \<le> 12 / 10 ^ 7"
    and "q d = Fin qd" "\<bar>qd\<bar> \<le> 2 / 10 ^ 19" "\<bar>volt\<bar> \<le> 2000"
    and "0 \<le> u1" "u1 \<le> 1" "0 \<le> u2" "u2 \<le> 1"
    and "x d = Fin x0" "y d = Fin y0" "\<bar>dt\<bar> \<le> 1000"
  shows "\<exists>vx' vy' x' y'.
           vx (OilDrop_update (Fin volt) dt u1 u2 d) = Fin vx' \<and> \<bar>vx'\<bar> \<le> 1 / 10 ^ 5 \<and>
           vy (OilDrop_update (Fin volt) dt u1 u2 d) = Fin vy' \<and> \<bar>vy'\<bar> \<le> 1 / 100 \<and>
           x (OilDrop_update (Fin volt) dt u1 u2 d) = Fin x' \<and> \<bar>x' - x0\<bar> \<le> 1 / 100 \<and>
           y (OilDrop_update (Fin volt) dt u1 u2 d) = Fin y' \<and> \<bar>y' - y0\<bar> \<le> 10"
proof -
  obtain vx' vy' where v:
    "vx (OilDrop_update (Fin volt) dt u1 u2 d) = Fin vx'" "\<bar>vx'\<bar> \<le> 1 / 10 ^ 5"
    "vy (OilDrop_update (Fin volt) dt u1 u2 d) = Fin vy'" "\<bar>vy'\<bar> \<le> 1 / 100"
    using OilDrop_update_velocity_bounds [OF assms(1-10), of dt] by blast
  have px: "x (OilDrop_update (Fin volt) dt u1 u2 d) = Fin (x0 + vx' * dt)"
    and py: "y (OilDrop_update (Fin volt) dt u1 u2 d) = Fin (y0 + vy' * dt)"
    using OilDrop_update_position [where V = "Fin volt" and dt = dt and ?u1.0 = u1 and ?u2.0 = u2 and d = d]
      v(1,3) assms(11,12) by simp_all
  have "\<bar>vx' * dt\<bar> \<le> (1 / 10 ^ 5) * 1000"
    unfolding abs_mult using v(2) assms(13) by (intro mult_mono) simp_all
  then have bx: "\<bar>(x0 + vx' * dt) - x0\<bar> \<le> 1 / 100" by simp
  have "\<bar>vy' * dt\<bar> \<le> (1 / 100) * 1000"
    unfolding abs_mult using v(4) assms(13) by (intro mult_mono) simp_all
  then have by': "\<bar>(y0 + vy' * dt) - y0\<bar> \<le> 10" by simp
  from v px py bx by' show ?thesis by blast
qed

lemma new_OilDrop_fields:
  assumes "0 \<le> u2" "u2 \<le> 1" "0 \<le> u3" "u3 \<le> 1" "0 \<le> w" "w \<le> 10 ^ 4" "0 \<le> h" "h \<le> 10 ^ 4"
  shows "\<exists>qd x0 y0. q (new_OilDrop w h u1 u2 u3 u4 u5 u6) = Fin qd \<and> \<bar>qd\<bar> \<le> 2 / 10 ^ 19 \<and>
           x (new_OilDrop w h u1 u2 u3 u4 u5 u6) = Fin x0 \<and> 0 \<le> x0 \<and> x0 \<le> 9 / 100 \<and>
           y (new_OilDrop w h u1 u2 u3 u4 u5 u6) = Fin y0 \<and> 0 \<le> y0 \<and> y0 \<le> 2 / 100"
proof -
  have q: "q (new_OilDrop w h u1 u2 u3 u4 u5 u6) = Fin ((if u5 < 0.5 then - 1 else 1) * e_charge)"
    by (simp add: new_OilDrop_def Let_def)
  have qb: "\<bar>(if u5 < 0.5 then - 1 else 1) * e_charge\<bar> \<le> 2 / 10 ^ 19"
    by (simp add: e_charge_def)
  have px: "x (new_OilDrop w h u1 u2 u3 u4 u5 u6) = Fin ((u2 * 0.8 + 0.1) * (w / scale))"
    and py: "y (new_OilDrop w h u1 u2 u3 u4 u5 u6) = Fin ((u3 * 0.2) * (h / scale))"
    by (simp_all add: new_OilDrop_def Let_def scale_def)
  have ws: "0 \<le> w / scale" "w / scale \<le> 1 / 10" and hs: "0 \<le> h / scale" "h / scale \<le> 1 / 10"
    using assms(5-8) by (simp_all add: scale_def)
  have x0: "0 \<le> (u2 * 0.8 + 0.1) * (w / scale)"
    using assms(1) ws(1) by (intro mult_nonneg_nonneg) simp_all
  have "(u2 * 0.8 + 0.1) * (w / scale) \<le> 0.9 * (1 / 10)"
    using assms(1,2) ws by (intro mult_mono) simp_all
  then have x1: "(u2 * 0.8 + 0.1) * (w / scale) \<le> 9 / 100" by simp
  have y0: "0 \<le> (u3 * 0.2) * (h / scale)"
    using assms(3) hs(1) by (intro mult_nonneg_nonneg) simp_all
  have "(u3 * 0.2) * (h / scale) \<le> 0.2 * (1 / 10)"
    using assms(3,4) hs by (intro mult_mono) simp_all
  then have y1: "(u3 * 0.2) * (h / scale) \<le> 2 / 100" by simp
  from q qb px py x0 x1 y0 y1 show ?thesis by blast
qed

text \<open>
  Claim C9 says that a zero denominator is treated as a zero velocity contribution.
  \<open>update\<close> has no such guard: with radius \<open>0\<close> the horizontal velocity and
  position become \<open>NaN\<close> and the vertical ones infinite.
\<close>

theorem OilDrop_update_zero_radius_counterexample:
  "(let d' = OilDrop_update (Fin 100) 0.016 0.75 0.75 (drop0\<lparr>radius := Fin 0, q := Fin e_charge\<rparr>)
    in vx d' = NaN \<and> vy d' = PInf \<and> x d' = NaN \<and> y d' = PInf)"
  by (simp add: OilDrop_update_def Let_def drop0_def signedInf_def e_charge_def plateDistance_def viscosity_def
      rho_oil_def rho_air_def g_def minus_jsnum_def)

text \<open>
  Claim C9, amended. \<open>update\<close> divides by the drag coefficient and by the radius
  without a guard. The constructor draws the radius from \<open>[0.5, 1.1)\<close> micrometres
  and \<open>update\<close> never changes it, so for every constructed drop (the draw of the
  radius in \<open>[0, 1)\<close>, those of the position in \<open>[0, 1]\<close>, a canvas of at most
  \<open>10 ^ 4\<close> pixels each way) both denominators are strictly positive: the radius
  is above \<open>4 / 10 ^ 7\<close> (and below \<open>12 / 10 ^ 7\<close>; the bounds are stated with
  room for rounding) and the drag coefficient at least \<open>1 / 10 ^ 10\<close>. For a
  voltage between the clamp bounds
  \<open>-2000\<close> and \<open>2000\<close>, a frame time of at most 1000 seconds and jitter draws
  in \<open>[0, 1]\<close>, the update then yields finite values far from the largest
  number: a horizontal velocity of magnitude at most \<open>1 / 10 ^ 5\<close>, a vertical
  velocity of magnitude at most \<open>1 / 100\<close>, and a position of magnitude at most
  \<open>1\<close> horizontally and \<open>11\<close> vertically.
\<close>

theorem OilDrop_update_denominators_positive:
  assumes "d = new_OilDrop w h u1 u2 u3 u4 u5 u6"
    and "0 \<le> u1" "u1 < 1" "0 \<le> u2" "u2 \<le> 1" "0 \<le> u3" "u3 \<le> 1"
    and "0 \<le> w" "w \<le> 10 ^ 4" "0 \<le> h" "h \<le> 10 ^ 4"
    and "\<bar>volt\<bar> \<le> 2000" "\<bar>dt\<bar> \<le> 1000" "0 \<le> j1" "j1 \<le> 1" "0 \<le> j2" "j2 \<le> 1"
  shows "\<exists>r c vx' vy' x' y'.
           radius d = Fin r \<and> 4 / 10 ^ 7 < r \<and> r < 12 / 10 ^ 7 \<and>
           Fin 6 * Fin pi * Fin viscosity * radius d = Fin c \<and> 1 / 10 ^ 10 \<le> c \<and>
           radius (OilDrop_update (Fin volt) dt j1 j2 d) = radius d \<and>
           vx (OilDrop_update (Fin volt) dt j1 j2 d) = Fin vx' \<and> \<bar>vx'\<bar> \<le> 1 / 10 ^ 5 \<and>
           vy (OilDrop_update (Fin volt) dt j1 j2 d) = Fin vy' \<and> \<bar>vy'\<bar> \<le> 1 / 100 \<and>
           x (OilDrop_update (Fin volt) dt j1 j2 d) = Fin x' \<and> \<bar>x'\<bar> \<le> 1 \<and>
           y (OilDrop_update (Fin volt) dt j1 j2 d) = Fin y' \<and> \<bar>y'\<bar> \<le> 11"
proof -
  obtain r where r: "radius d = Fin r" "5 / 10 ^ 7 \<le> r" "r < 11 / 10 ^ 7"
    using new_OilDrop_radius [OF assms(2,3)] assms(1) by blast
  then have r4: "4 / 10 ^ 7 \<le> r" and r': "r \<le> 12 / 10 ^ 7" by simp_all
  obtain qd x0 y0 where f: "q d = Fin qd" "\<bar>qd\<bar> \<le> 2 / 10 ^ 19"
    "x d = Fin x0" "0 \<le> x0" "x0 \<le> 9 / 100" "y d = Fin y0" "0 \<le> y0" "y0 \<le> 2 / 100"
    using new_OilDrop_fields [OF assms(4-11)] assms(1) by blast
  have c: "Fin 6 * Fin pi * Fin viscosity * radius d = Fin (6 * pi * viscosity * r)"
    by (simp add: r(1))
  have cb: "1 / 10 ^ 10 \<le> 6 * pi * viscosity * r"
    by (rule drag_coeff_lower [OF r(2)])
  obtain vx' vy' x' y' where u:
    "vx (OilDrop_update (Fin volt) dt j1 j2 d) = Fin vx'" "\<bar>vx'\<bar> \<le> 1 / 10 ^ 5"
    "vy (OilDrop_update (Fin volt) dt j1 j2 d) = Fin vy'" "\<bar>vy'\<bar> \<le> 1 / 100"
    "x (OilDrop_update (Fin volt) dt j1 j2 d) = Fin x'" "\<bar>x' - x0\<bar> \<le> 1 / 100"
    "y (OilDrop_update (Fin volt) dt j1 j2 d) = Fin y'" "\<bar>y' - y0\<bar> \<le> 10"
    using OilDrop_update_position_bounds
      [OF r(1) r4 r' f(1,2) assms(12) assms(14-17) f(3,6) assms(13)] by blast
  have xb: "\<bar>x'\<bar> \<le> 1" using u(6) f(4,5) by (simp add: abs_if split: if_splits)
  have yb: "\<bar>y'\<bar> \<le> 11" using u(8) f(7,8) by (simp add: abs_if split: if_splits)
  have keep: "radius (OilDrop_update (Fin volt) dt j1 j2 d) = radius d" by simp
  have rb: "4 / 10 ^ 7 < r" "r < 12 / 10 ^ 7" using r(2,3) by simp_all
  from r(1) rb c cb keep u(1-5) xb u(7) yb show ?thesis by blast
qed

theorem OilDrop_update_denominators_positive_witness:
  "(let d = new_OilDrop 800 500 0.5 0.5 0.5 0.5 0.5 0.5;
        d' = OilDrop_update (Fin 500) 0.016 0.5 0.5 d
    in radius d = Fin (8 / 10 ^ 7) \<and> radius d' = Fin (8 / 10 ^ 7) \<and>
       (\<exists>c. Fin 6 * Fin pi * Fin viscosity * radius d = Fin c \<and> 1 / 10 ^ 10 \<le> c) \<and>
       (\<exists>v. vx d' = Fin v \<and> \<bar>v\<bar> \<le> 1 / 10 ^ 5) \<and>
       (\<exists>v. vy d' = Fin v \<and> \<bar>v\<bar> \<le> 1 / 100) \<and>
       (\<exists>p. x d' = Fin p \<and> \<bar>p\<bar> \<le> 1) \<and>
       (\<exists>p. y d' = Fin p \<and> \<bar>p\<bar> \<le> 11))"
proof -
  let ?d = "new_OilDrop 800 500 0.5 0.5 0.5 0.5 0.5 0.5"
  have r: "radius ?d = Fin (8 / 10 ^ 7)"
    by (simp add: new_OilDrop_def Let_def)
  have "\<exists>r c vx' vy' x' y'.
           radius ?d = Fin r \<and> 4 / 10 ^ 7 < r \<and> r < 12 / 10 ^ 7 \<and>
           Fin 6 * Fin pi * Fin viscosity * radius ?d = Fin c \<and> 1 / 10 ^ 10 \<le> c \<and>
           radius (OilDrop_update (Fin 500) 0.016 0.5 0.5 ?d) = radius ?d \<and>
           vx (OilDrop_update (Fin 500) 0.016 0.5 0.5 ?d) = Fin vx' \<and> \<bar>vx'\<bar> \<le> 1 / 10 ^ 5 \<and>
           vy (OilDrop_update (Fin 500) 0.016 0.5 0.5 ?d) = Fin vy' \<and> \<bar>vy'\<bar> \<le> 1 / 100 \<and>
           x (OilDrop_update (Fin 500) 0.016 0.5 0.5 ?d) = Fin x' \<and> \<bar>x'\<bar> \<le> 1 \<and>
           y (OilDrop_update (Fin 500) 0.016 0.5 0.5 ?d) = Fin y' \<and> \<bar>y'\<bar> \<le> 11"
    by (rule OilDrop_update_denominators_positive [OF refl]) simp_all
  then show ?thesis
    unfolding Let_def using r by metis
qed

subsection \<open>Voltage input\<close>

lemma updateVoltageFromInput_voltage:
  "voltage (updateVoltageFromInput c) =
     (case voltage_input c of
        Fin p \<Rightarrow> Fin (if p > 2000 then 2000 else if p < - 2000 then - 2000 else p)
      | PInf \<Rightarrow> Fin 2000 | NInf \<Rightarrow> Fin (- 2000) | NaN \<Rightarrow> Fin 0)"
  by (cases "voltage_input c") (simp_all add: updateVoltageFromInput_def Let_def)

lemma updateVoltageFromInput_controls:
  "voltage_input (updateVoltageFromInput c) = voltage (updateVoltageFromInput c)"
  "voltage_slider (updateVoltageFromInput c) = voltage (updateVoltageFromInput c)"
  by (simp_all add: updateVoltageFromInput_def Let_def)

lemma updateVoltageFromInput_idem:
  "updateVoltageFromInput (updateVoltageFromInput c) = updateVoltageFromInput c"
  by (cases "voltage_input c") (simp_all add: updateVoltageFromInput_def Let_def)

text \<open>
  Claim C10. Whatever number \<open>parseInt\<close> reads from the input box,
  \<open>updateVoltageFromInput\<close> stores a finite voltage in \<open>[-2000, 2000]\<close>: \<open>NaN\<close>
  becomes \<open>0\<close>, a value in range is stored as it is, a value above \<open>2000\<close>
  (or \<open>+Infinity\<close>) is stored as \<open>2000\<close> and a value below \<open>-2000\<close> (or
  \<open>-Infinity\<close>) as \<open>-2000\<close>. The same number is written to the slider and
  back to the input box. The write is idempotent: running it again on its own
  result, or again with the original input, stores the same voltage.
\<close>

theorem updateVoltageFromInput_clamps:
  "\<exists>v. voltage (updateVoltageFromInput c) = Fin v \<and> - 2000 \<le> v \<and> v \<le> 2000 \<and>
       (isNaN (voltage_input c) \<longrightarrow> v = 0) \<and>
       (\<forall>p. voltage_input c = Fin p \<and> - 2000 \<le> p \<and> p \<le> 2000 \<longrightarrow> v = p) \<and>
       (\<forall>p. voltage_input c = Fin p \<and> 2000 < p \<longrightarrow> v = 2000) \<and>
       (\<forall>p. voltage_input c = Fin p \<and> p < - 2000 \<longrightarrow> v = - 2000) \<and>
       (voltage_input c = PInf \<longrightarrow> v = 2000) \<and>
       (voltage_input c = NInf \<longrightarrow> v = - 2000) \<and>
       voltage_slider (updateVoltageFromInput c) = Fin v \<and>
       voltage_input (updateVoltageFromInput c) = Fin v \<and>
       updateVoltageFromInput (updateVoltageFromInput c) = updateVoltageFromInput c \<and>
       voltage (updateVoltageFromInput
         ((updateVoltageFromInput c)\<lparr>voltage_input := voltage_input c\<rparr>)) = Fin v"
proof (cases "voltage_input c")
  case (Fin p)
  then show ?thesis
    using updateVoltageFromInput_idem [of c]
    by (auto simp: updateVoltageFromInput_voltage updateVoltageFromInput_controls)
next
  case PInf
  then show ?thesis
    using updateVoltageFromInput_idem [of c]
    by (auto simp: updateVoltageFromInput_voltage updateVoltageFromInput_controls)
next
  case NInf
  then show ?thesis
    using updateVoltageFromInput_idem [of c]
    by (auto simp: updateVoltageFromInput_voltage updateVoltageFromInput_controls)
next
  case NaN
  then show ?thesis
    using updateVoltageFromInput_idem [of c]
    by (auto simp: updateVoltageFromInput_voltage updateVoltageFromInput_controls)
qed

theorem updateVoltageFromInput_clamps_witness:
  "voltage (updateVoltageFromInput \<lparr>voltage = Fin 7, voltage_slider = Fin 7, voltage_input = NaN\<rparr>) = Fin 0 \<and>
   voltage (updateVoltageFromInput \<lparr>voltage = Fin 7, voltage_slider = Fin 7, voltage_input = Fin 2500\<rparr>) = Fin 2000 \<and>
   voltage (updateVoltageFromInput \<lparr>voltage = Fin 7, voltage_slider = Fin 7, voltage_input = Fin (- 2500)\<rparr>) = Fin (- 2000) \<and>
   voltage (updateVoltageFromInput \<lparr>voltage = Fin 7, voltage_slider = Fin 7, voltage_input = Fin (- 350)\<rparr>) = Fin (- 350) \<and>
   voltage (updateVoltageFromInput \<lparr>voltage = Fin 7, voltage_slider = Fin 7, voltage_input = PInf\<rparr>) = Fin 2000 \<and>
   voltage (updateVoltageFromInput \<lparr>voltage = Fin 7, voltage_slider = Fin 7, voltage_input = NInf\<rparr>) = Fin (- 2000)"
proof (intro conjI)
  show "voltage (updateVoltageFromInput \<lparr>voltage = Fin 7, voltage_slider = Fin 7, voltage_input = NaN\<rparr>) = Fin 0"
    using updateVoltageFromInput_clamps [of "\<lparr>voltage = Fin 7, voltage_slider = Fin 7, voltage_input = NaN\<rparr>"]
    by auto
  show "voltage (updateVoltageFromInput \<lparr>voltage = Fin 7, voltage_slider = Fin 7, voltage_input = Fin 2500\<rparr>) = Fin 2000"
    using updateVoltageFromInput_clamps [of "\<lparr>voltage = Fin 7, voltage_slider = Fin 7, voltage_input = Fin 2500\<rparr>"]
    by auto
  show "voltage (updateVoltageFromInput \<lparr>voltage = Fin 7, voltage_slider = Fin 7, voltage_input = Fin (- 2500)\<rparr>) = Fin (- 2000)"
    using updateVoltageFromInput_clamps [of "\<lparr>voltage = Fin 7, voltage_slider = Fin 7, voltage_input = Fin (- 2500)\<rparr>"]
    by auto
  show "voltage (updateVoltageFromInput \<lparr>voltage = Fin 7, voltage_slider = Fin 7, voltage_input = Fin (- 350)\<rparr>) = Fin (- 350)"
    using updateVoltageFromInput_clamps [of "\<lparr>voltage = Fin 7, voltage_slider = Fin 7, voltage_input = Fin (- 350)\<rparr>"]
    by auto
  show "voltage (updateVoltageFromInput \<lparr>voltage = Fin 7, voltage_slider = Fin 7, voltage_input = PInf\<rparr>) = Fin 2000"
    using updateVoltageFromInput_clamps [of "\<lparr>voltage = Fin 7, voltage_slider = Fin 7, voltage_input = PInf\<rparr>"]
    by auto
  show "voltage (updateVoltageFromInput \<lparr>voltage = Fin 7, voltage_slider = Fin 7, voltage_input = NInf\<rparr>) = Fin (- 2000)"
    using updateVoltageFromInput_clamps [of "\<lparr>voltage = Fin 7, voltage_slider = Fin 7, voltage_input = NInf\<rparr>"]
    by auto
qed

subsection \<open>Photoelectric effect: frames and spawning\<close>

lemma below_threshold_cong:
  "ph_lambda s' = ph_lambda s \<Longrightarrow> workFunction s' = workFunction s \<Longrightarrow>
   below_threshold s' = below_threshold s"
  by (simp add: below_threshold_def)

subsection \<open>What each function leaves unchanged\<close>

lemma spawnElectron_below:
  "below_threshold s \<Longrightarrow> spawnElectron rnd ex ey a s = s"
  by (simp add: spawnElectron_def Let_def below_threshold_def)

lemma spawnElectron_above:
  "\<not> below_threshold s \<Longrightarrow>
   spawnElectron rnd ex ey a s =
     s\<lparr>random_calls := random_calls s + 2,
       electrons := electrons s @
         [\<lparr>p_x = Fin ex, p_y = Fin ey,
           p_vx = Math_cos (Fin (a + (rnd (Suc (random_calls s)) - 0.5) * 1.0)) *
                  (Math_sqrt ((Fin HC / Fin (ph_lambda s) - Fin (workFunction s)) *
                     Fin (0.9 + rnd (random_calls s) * 0.1)) * Fin SCALE_SPEED),
           p_vy = Math_sin (Fin (a + (rnd (Suc (random_calls s)) - 0.5) * 1.0)) *
                  (Math_sqrt ((Fin HC / Fin (ph_lambda s) - Fin (workFunction s)) *
                     Fin (0.9 + rnd (random_calls s) * 0.1)) * Fin SCALE_SPEED),
           p_ke = (Fin HC / Fin (ph_lambda s) - Fin (workFunction s)) *
                     Fin (0.9 + rnd (random_calls s) * 0.1),
           dead = False\<rparr>]\<rparr>"
  by (simp add: spawnElectron_def Let_def Math_random_def below_threshold_def)

lemma spawnElectron_params [simp]:
  "ph_lambda (spawnElectron rnd ex ey a s) = ph_lambda s"
  "workFunction (spawnElectron rnd ex ey a s) = workFunction s"
  "intensity (spawnElectron rnd ex ey a s) = intensity s"
  "ph_voltage (spawnElectron rnd ex ey a s) = ph_voltage s"
  "canvas_width (spawnElectron rnd ex ey a s) = canvas_width s"
  "hitHistory (spawnElectron rnd ex ey a s) = hitHistory s"
  "ammeterCurrent (spawnElectron rnd ex ey a s) = ammeterCurrent s"
  by (simp_all add: spawnElectron_def Let_def Math_random_def)

lemma spawnRandomElectron_params [simp]:
  "ph_lambda (spawnRandomElectron rnd s) = ph_lambda s"
  "workFunction (spawnRandomElectron rnd s) = workFunction s"
  "intensity (spawnRandomElectron rnd s) = intensity s"
  "ph_voltage (spawnRandomElectron rnd s) = ph_voltage s"
  "canvas_width (spawnRandomElectron rnd s) = canvas_width s"
  "hitHistory (spawnRandomElectron rnd s) = hitHistory s"
  "ammeterCurrent (spawnRandomElectron rnd s) = ammeterCurrent s"
  by (simp_all add: spawnRandomElectron_def Let_def Math_random_def)

lemma guaranteed_spawns_params [simp]:
  "ph_lambda (guaranteed_spawns rnd n s) = ph_lambda s"
  "workFunction (guaranteed_spawns rnd n s) = workFunction s"
  "intensity (guaranteed_spawns rnd n s) = intensity s"
  "ph_voltage (guaranteed_spawns rnd n s) = ph_voltage s"
  "canvas_width (guaranteed_spawns rnd n s) = canvas_width s"
  "hitHistory (guaranteed_spawns rnd n s) = hitHistory s"
  "ammeterCurrent (guaranteed_spawns rnd n s) = ammeterCurrent s"
  by (induction n arbitrary: s; simp)+

lemma spawning_logic_params [simp]:
  "ph_lambda (spawning_logic rnd s) = ph_lambda s"
  "workFunction (spawning_logic rnd s) = workFunction s"
  "intensity (spawning_logic rnd s) = intensity s"
  "ph_voltage (spawning_logic rnd s) = ph_voltage s"
  "canvas_width (spawning_logic rnd s) = canvas_width s"
  "hitHistory (spawning_logic rnd s) = hitHistory s"
  "ammeterCurrent (spawning_logic rnd s) = ammeterCurrent s"
  by (simp_all add: spawning_logic_def Let_def Math_random_def)

lemma forEach_electron_fst:
  "fst (forEach_electron ts ff es s) = map (\<lambda>e. fst (electron_step ff (canvas_width s) e)) es"
  by (induction es arbitrary: s) (simp_all add: Let_def split_beta recordHit_def)

lemma forEach_electron_snd:
  "\<exists>hs. snd (forEach_electron ts ff es s) = s\<lparr>hitHistory := hitHistory s @ hs\<rparr>"
proof (induction es arbitrary: s)
  case Nil
  have "snd (forEach_electron ts ff [] s) = s\<lparr>hitHistory := hitHistory s @ []\<rparr>" by simp
  then show ?case by (rule exI)
next
  case (Cons e es)
  let ?s1 = "if snd (electron_step ff (canvas_width s) e) then recordHit ts s else s"
  obtain hs where hs: "snd (forEach_electron ts ff es ?s1) = ?s1\<lparr>hitHistory := hitHistory ?s1 @ hs\<rparr>"
    using Cons.IH by blast
  show ?case
  proof (cases "snd (electron_step ff (canvas_width s) e)")
    case True
    with hs have "snd (forEach_electron ts ff (e # es) s) = s\<lparr>hitHistory := hitHistory s @ (ts # hs)\<rparr>"
      by (simp add: Let_def split_beta recordHit_def)
    then show ?thesis by blast
  next
    case False
    with hs have "snd (forEach_electron ts ff (e # es) s) = s\<lparr>hitHistory := hitHistory s @ hs\<rparr>"
      by (simp add: Let_def split_beta)
    then show ?thesis by blast
  qed
qed

lemma updateElectrons_form:
  "\<exists>hs. updateElectrons ts s =
     s\<lparr>hitHistory := hitHistory s @ hs,
       electrons := filter (\<lambda>e. \<not> dead e)
         (map (\<lambda>e. fst (electron_step (ph_voltage s * 0.05) (canvas_width s) e)) (electrons s))\<rparr>"
proof -
  obtain hs where "snd (forEach_electron ts (ph_voltage s * 0.05) (electrons s) s) =
      s\<lparr>hitHistory := hitHistory s @ hs\<rparr>"
    using forEach_electron_snd by blast
  then have "updateElectrons ts s =
     s\<lparr>hitHistory := hitHistory s @ hs,
       electrons := filter (\<lambda>e. \<not> dead e)
         (map (\<lambda>e. fst (electron_step (ph_voltage s * 0.05) (canvas_width s) e)) (electrons s))\<rparr>"
    using forEach_electron_fst [of ts "ph_voltage s * 0.05" "electrons s" s]
    by (simp add: updateElectrons_def Let_def split_beta)
  then show ?thesis by blast
qed

lemma updateElectrons_params [simp]:
  "ph_lambda (updateElectrons ts s) = ph_lambda s"
  "workFunction (updateElectrons ts s) = workFunction s"
  "intensity (updateElectrons ts s) = intensity s"
  "ph_voltage (updateElectrons ts s) = ph_voltage s"
  "canvas_width (updateElectrons ts s) = canvas_width s"
  "random_calls (updateElectrons ts s) = random_calls s"
  "ammeterCurrent (updateElectrons ts s) = ammeterCurrent s"
  using updateElectrons_form [of ts s] by auto

lemma updateElectrons_electrons:
  "electrons (updateElectrons ts s) = filter (\<lambda>e. \<not> dead e)
     (map (\<lambda>e. fst (electron_step (ph_voltage s * 0.05) (canvas_width s) e)) (electrons s))"
  using updateElectrons_form [of ts s] by auto

lemma calculateRealCurrent_params [simp]:
  "ph_lambda (calculateRealCurrent ts s) = ph_lambda s"
  "workFunction (calculateRealCurrent ts s) = workFunction s"
  "intensity (calculateRealCurrent ts s) = intensity s"
  "ph_voltage (calculateRealCurrent ts s) = ph_voltage s"
  "canvas_width (calculateRealCurrent ts s) = canvas_width s"
  "random_calls (calculateRealCurrent ts s) = random_calls s"
  "electrons (calculateRealCurrent ts s) = electrons s"
  by (simp_all add: calculateRealCurrent_def Let_def)

lemma loop_params [simp]:
  "ph_lambda (loop rnd ts s) = ph_lambda s"
  "workFunction (loop rnd ts s) = workFunction s"
  "intensity (loop rnd ts s) = intensity s"
  "ph_voltage (loop rnd ts s) = ph_voltage s"
  "canvas_width (loop rnd ts s) = canvas_width s"
  by (simp_all add: loop_def Let_def)

subsection \<open>Spawning\<close>

lemma below_threshold_update [simp]:
  "below_threshold (s\<lparr>random_calls := n\<rparr>) = below_threshold s"
  "below_threshold (s\<lparr>electrons := es\<rparr>) = below_threshold s"
  "below_threshold (s\<lparr>ph_time := k\<rparr>) = below_threshold s"
  "below_threshold (s\<lparr>wavePhase := w\<rparr>) = below_threshold s"
  by (simp_all add: below_threshold_def)

lemma below_threshold_preserved [simp]:
  "below_threshold (spawnElectron rnd ex ey a s) = below_threshold s"
  "below_threshold (spawnRandomElectron rnd s) = below_threshold s"
  "below_threshold (guaranteed_spawns rnd n s) = below_threshold s"
  "below_threshold (spawning_logic rnd s) = below_threshold s"
  "below_threshold (updateElectrons ts s) = below_threshold s"
  "below_threshold (calculateRealCurrent ts s) = below_threshold s"
  "below_threshold (loop rnd ts s) = below_threshold s"
  by (simp_all add: below_threshold_def)

lemma spawnRandomElectron_below:
  "below_threshold s \<Longrightarrow>
   spawnRandomElectron rnd s = s\<lparr>random_calls := Suc (random_calls s)\<rparr>"
  by (simp add: spawnRandomElectron_def Let_def Math_random_def spawnElectron_below)

lemma spawnRandomElectron_above:
  assumes "\<not> below_threshold s"
  shows "length (electrons (spawnRandomElectron rnd s)) = Suc (length (electrons s))"
    and "random_calls (spawnRandomElectron rnd s) = random_calls s + 3"
  using assms
  by (simp_all add: spawnRandomElectron_def Let_def Math_random_def spawnElectron_above)

lemma spawnRandomElectron_length_le:
  "length (electrons (spawnRandomElectron rnd s)) \<le> Suc (length (electrons s))"
  using spawnRandomElectron_below [of s rnd] spawnRandomElectron_above(1) [of s rnd]
  by (cases "below_threshold s") simp_all

lemma guaranteed_spawns_funpow:
  "guaranteed_spawns rnd n s = (spawnRandomElectron rnd ^^ n) s"
  by (induction n arbitrary: s) (simp_all add: funpow_swap1)

lemma guaranteed_spawns_below:
  "below_threshold s \<Longrightarrow>
   guaranteed_spawns rnd n s = s\<lparr>random_calls := random_calls s + n\<rparr>"
  by (induction n arbitrary: s) (simp_all add: spawnRandomElectron_below)

lemma guaranteed_spawns_above:
  assumes "\<not> below_threshold s"
  shows "length (electrons (guaranteed_spawns rnd n s)) = length (electrons s) + n \<and>
         random_calls (guaranteed_spawns rnd n s) = random_calls s + 3 * n"
  using assms
proof (induction n arbitrary: s)
  case 0
  then show ?case by simp
next
  case (Suc n)
  have "\<not> below_threshold (spawnRandomElectron rnd s)"
    using Suc.prems by simp
  from Suc.IH [OF this] show ?case
    by (simp add: spawnRandomElectron_above [OF Suc.prems])
qed

lemma guaranteed_spawns_length_le:
  "length (electrons (guaranteed_spawns rnd n s)) \<le> length (electrons s) + n"
proof (induction n arbitrary: s)
  case 0
  then show ?case by simp
next
  case (Suc n)
  have "length (electrons (guaranteed_spawns rnd n (spawnRandomElectron rnd s)))
          \<le> length (electrons (spawnRandomElectron rnd s)) + n"
    by (rule Suc.IH)
  also have "\<dots> \<le> Suc (length (electrons s)) + n"
    using spawnRandomElectron_length_le [of rnd s] by simp
  finally show ?case by simp
qed

lemma spawning_logic_unfold:
  assumes "0 < intensity s"
  shows "spawning_logic rnd s =
     (let s1 = guaranteed_spawns rnd (nat \<lfloor>intensity s * 0.03\<rfloor>) s;
          s2 = s1\<lparr>random_calls := Suc (random_calls s1)\<rparr>
      in if rnd (random_calls s1) < intensity s * 0.03 - real_of_int \<lfloor>intensity s * 0.03\<rfloor>
         then spawnRandomElectron rnd s2 else s2)"
  using assms by (simp add: spawning_logic_def Let_def Math_random_def)

lemma spawning_logic_below:
  assumes "below_threshold s"
  shows "electrons (spawning_logic rnd s) = electrons s"
proof (cases "0 < intensity s")
  case True
  show ?thesis
    unfolding spawning_logic_unfold [OF True] Let_def
    using assms by (simp add: guaranteed_spawns_below spawnRandomElectron_below)
next
  case False
  then show ?thesis by (simp add: spawning_logic_def)
qed

lemma loop_below:
  assumes "below_threshold s"
  shows "electrons (loop rnd ts s) = filter (\<lambda>e. \<not> dead e)
     (map (\<lambda>e. fst (electron_step (ph_voltage s * 0.05) (canvas_width s) e)) (electrons s))"
proof -
  let ?s1 = "s\<lparr>ph_time := ph_time s + 1, wavePhase := wavePhase s - 0.1\<rparr>"
  have "below_threshold (updateElectrons ts ?s1)"
    using assms by simp
  then have "electrons (spawning_logic rnd (updateElectrons ts ?s1)) =
      electrons (updateElectrons ts ?s1)"
    by (rule spawning_logic_below)
  then show ?thesis
    by (simp add: loop_def Let_def updateElectrons_electrons)
qed

lemma run_below:
  assumes "below_threshold s"
  shows "length (electrons (run rnd tss s)) \<le> length (electrons s)"
  using assms
proof (induction tss arbitrary: s)
  case Nil
  then show ?case by simp
next
  case (Cons ts tss)
  have "below_threshold (loop rnd ts s)"
    using Cons.prems by simp
  then have "length (electrons (run rnd tss (loop rnd ts s))) \<le> length (electrons (loop rnd ts s))"
    by (rule Cons.IH)
  also have "\<dots> \<le> length (electrons s)"
    by (simp add: loop_below [OF Cons.prems])
  finally show ?case by simp
qed

text \<open>
  Claim C2. Whenever the photon energy \<open>HC / \<lambda>\<close> is at most the work function,
  \<open>spawnElectron\<close> returns the state as it is. With \<open>\<lambda> = 700\<close> nm and the work
  function of copper (4.70 eV), a frame adds no electron: the electrons after the
  frame are the survivors of those before it, so over any number of frames the
  number of electrons never grows and an empty tube stays empty.
\<close>

theorem spawnElectron_below_threshold_noop:
  "(Fin HC / Fin (ph_lambda s) \<le> Fin (workFunction s) \<longrightarrow> spawnElectron rnd ex ey a s = s) \<and>
   (ph_lambda s = 700 \<and> METALS_phi ''copper'' = Some (workFunction s) \<longrightarrow>
      electrons (loop rnd ts s) = filter (\<lambda>e. \<not> dead e)
        (map (\<lambda>e. fst (electron_step (ph_voltage s * 0.05) (canvas_width s) e)) (electrons s)) \<and>
      length (electrons (run rnd tss s)) \<le> length (electrons s) \<and>
      (electrons s = [] \<longrightarrow> electrons (run rnd tss s) = []))"
proof -
  have below: "below_threshold s"
    if "ph_lambda s = 700" "METALS_phi ''copper'' = Some (workFunction s)"
    using that by (simp add: METALS_phi_def HC_def below_threshold_def)
  have "length (electrons (run rnd tss s)) \<le> length (electrons s)"
    if "ph_lambda s = 700" "METALS_phi ''copper'' = Some (workFunction s)"
    by (rule run_below [OF below [OF that]])
  moreover have "electrons (loop rnd ts s) = filter (\<lambda>e. \<not> dead e)
        (map (\<lambda>e. fst (electron_step (ph_voltage s * 0.05) (canvas_width s) e)) (electrons s))"
    if "ph_lambda s = 700" "METALS_phi ''copper'' = Some (workFunction s)"
    by (rule loop_below [OF below [OF that]])
  ultimately show ?thesis
    using spawnElectron_below [of s rnd ex ey a] by (auto simp: below_threshold_def)
qed

theorem spawnElectron_below_threshold_noop_witness:
  "spawnElectron (\<lambda>i. 0.1) 348 250 pi (photo_initial\<lparr>ph_lambda := 700, workFunction := 4.70\<rparr>) =
     photo_initial\<lparr>ph_lambda := 700, workFunction := 4.70\<rparr> \<and>
   electrons (run (\<lambda>i. 0.1) [16, 32, 48] (photo_initial\<lparr>ph_lambda := 700, workFunction := 4.70\<rparr>)) = []"
  using spawnElectron_below_threshold_noop
    [of "photo_initial\<lparr>ph_lambda := 700, workFunction := 4.70\<rparr>" "\<lambda>i. 0.1" 348 250 pi 16 "[16, 32, 48]"]
  by (simp add: photo_initial_def METALS_phi_def HC_def)

text \<open>
  Claim C8. For every intensity \<open>I > 0\<close> the spawning block calls
  \<open>spawnRandomElectron\<close> exactly \<open>\<lfloor>0.03 I\<rfloor>\<close> times, draws one number \<open>u\<close>, and
  calls it once more exactly when \<open>u\<close> is below the remainder
  \<open>0.03 I - \<lfloor>0.03 I\<rfloor>\<close>. The remainder lies in \<open>[0, 1)\<close>, so the draws in \<open>[0, 1)\<close>
  that give the extra call form the interval \<open>[0, remainder)\<close>, whose length is the
  probability of the extra call for a uniform draw; the expected number of calls is
  then \<open>\<lfloor>0.03 I\<rfloor> + remainder = 0.03 I\<close>. A frame adds at most \<open>\<lfloor>0.03 I\<rfloor> + 1\<close>
  electrons, and above the threshold exactly one per call.
\<close>

theorem spawning_logic_attempts:
  assumes "0 < intensity s"
  shows "(let rate = intensity s * 0.03;
              count = nat \<lfloor>rate\<rfloor>;
              remainder = rate - real_of_int \<lfloor>rate\<rfloor>;
              s1 = (spawnRandomElectron rnd ^^ count) s;
              u = rnd (random_calls s1);
              s2 = s1\<lparr>random_calls := Suc (random_calls s1)\<rparr>
          in spawning_logic rnd s = (if u < remainder then spawnRandomElectron rnd s2 else s2) \<and>
             0 \<le> remainder \<and> remainder < 1 \<and>
             {u. 0 \<le> u \<and> u < 1 \<and> u < remainder} = {0..<remainder} \<and>
             real count + remainder = rate \<and>
             length (electrons (spawning_logic rnd s)) \<le> length (electrons s) + count + 1 \<and>
             (\<not> Fin HC / Fin (ph_lambda s) \<le> Fin (workFunction s) \<longrightarrow>
                random_calls s1 = random_calls s + 3 * count \<and>
                length (electrons (spawning_logic rnd s)) =
                  length (electrons s) + count + (if u < remainder then 1 else 0)))"
proof -
  define rate where "rate = intensity s * 0.03"
  define count where "count = nat \<lfloor>rate\<rfloor>"
  define remainder where "remainder = rate - real_of_int \<lfloor>rate\<rfloor>"
  define s1 where "s1 = (spawnRandomElectron rnd ^^ count) s"
  define u where "u = rnd (random_calls s1)"
  define s2 where "s2 = s1\<lparr>random_calls := Suc (random_calls s1)\<rparr>"
  have rate: "0 \<le> rate" using assms by (simp add: rate_def)
  have g: "guaranteed_spawns rnd count s = s1"
    by (simp add: s1_def guaranteed_spawns_funpow)
  have unfold: "spawning_logic rnd s = (if u < remainder then spawnRandomElectron rnd s2 else s2)"
    using spawning_logic_unfold [OF assms, of rnd] g
    by (simp add: Let_def rate_def count_def remainder_def u_def s2_def)
  have r0: "0 \<le> remainder" and r1: "remainder < 1"
    unfolding remainder_def by linarith+
  have iv: "{u. 0 \<le> u \<and> u < 1 \<and> u < remainder} = {0..<remainder}"
    using r1 by auto
  have sum: "real count + remainder = rate"
    using rate by (simp add: count_def remainder_def)
  have len1: "length (electrons s1) \<le> length (electrons s) + count"
    using guaranteed_spawns_length_le [of rnd count s] g by simp
  have len2: "length (electrons s2) = length (electrons s1)"
    by (simp add: s2_def)
  have "length (electrons (spawnRandomElectron rnd s2)) \<le> Suc (length (electrons s2))"
    by (rule spawnRandomElectron_length_le)
  with len1 len2 have le: "length (electrons (spawning_logic rnd s)) \<le> length (electrons s) + count + 1"
    by (simp add: unfold)
  have above: "random_calls s1 = random_calls s + 3 * count \<and>
      length (electrons (spawning_logic rnd s)) =
        length (electrons s) + count + (if u < remainder then 1 else 0)"
    if a: "\<not> Fin HC / Fin (ph_lambda s) \<le> Fin (workFunction s)"
  proof -
    have na: "\<not> below_threshold s" using a by (simp add: below_threshold_def)
    have e1: "length (electrons s1) = length (electrons s) + count"
      and rc: "random_calls s1 = random_calls s + 3 * count"
      using guaranteed_spawns_above [OF na, of rnd count] g by simp_all
    have "\<not> below_threshold s2"
      using na g [symmetric] by (simp add: s2_def)
    then have "length (electrons (spawnRandomElectron rnd s2)) = Suc (length (electrons s2))"
      by (rule spawnRandomElectron_above(1))
    with e1 len2 rc show ?thesis by (simp add: unfold)
  qed
  from unfold r0 r1 iv sum le above show ?thesis
    unfolding Let_def rate_def [symmetric] count_def [symmetric] remainder_def [symmetric]
      s1_def [symmetric] u_def [symmetric] s2_def [symmetric]
    by blast
qed

theorem spawning_logic_attempts_witness:
  "0 < intensity (photo_initial\<lparr>intensity := 50\<rparr>) \<and>
   length (electrons (spawning_logic (\<lambda>i. 0.25) (photo_initial\<lparr>intensity := 50\<rparr>))) = 2 \<and>
   length (electrons (spawning_logic (\<lambda>i. 0.75) (photo_initial\<lparr>intensity := 50\<rparr>))) = 1"
proof -
  let ?s = "photo_initial\<lparr>intensity := 50\<rparr>"
  have pos: "0 < intensity ?s"
    by (simp add: photo_initial_def)
  have above: "\<not> Fin HC / Fin (ph_lambda ?s) \<le> Fin (workFunction ?s)"
    by (simp add: photo_initial_def HC_def)
  have fl: "\<lfloor>intensity ?s * 0.03\<rfloor> = 1"
    by (simp add: photo_initial_def)
  have "length (electrons (spawning_logic (\<lambda>i. 0.25) ?s)) =
      length (electrons ?s) + nat \<lfloor>intensity ?s * 0.03\<rfloor> +
      (if (0.25::real) < intensity ?s * 0.03 - real_of_int \<lfloor>intensity ?s * 0.03\<rfloor> then 1 else 0)"
    using spawning_logic_attempts [OF pos, of "\<lambda>i. 0.25", unfolded Let_def] above by blast
  then have "length (electrons (spawning_logic (\<lambda>i. 0.25) ?s)) = 2"
    unfolding fl by (simp add: photo_initial_def)
  moreover have "length (electrons (spawning_logic (\<lambda>i. 0.75) ?s)) =
      length (electrons ?s) + nat \<lfloor>intensity ?s * 0.03\<rfloor> +
      (if (0.75::real) < intensity ?s * 0.03 - real_of_int \<lfloor>intensity ?s * 0.03\<rfloor> then 1 else 0)"
    using spawning_logic_attempts [OF pos, of "\<lambda>i. 0.75", unfolded Let_def] above by blast
  then have "length (electrons (spawning_logic (\<lambda>i. 0.75) ?s)) = 1"
    unfolding fl by (simp add: photo_initial_def)
  ultimately show ?thesis using pos by simp
qed

subsection \<open>Dependence on the random draws\<close>

lemma agree_on_subrange:
  "agree_on rnd1 rnd2 a b \<Longrightarrow> a \<le> a' \<Longrightarrow> b' \<le> b \<Longrightarrow> agree_on rnd1 rnd2 a' b'"
  by (simp add: agree_on_def)

lemma agree_on_at: "agree_on rnd1 rnd2 a b \<Longrightarrow> a \<le> i \<Longrightarrow> i < b \<Longrightarrow> rnd1 i = rnd2 i"
  by (simp add: agree_on_def)

lemma spawnElectron_calls:
  "random_calls (spawnElectron rnd ex ey a s) =
     (if below_threshold s then random_calls s else random_calls s + 2)"
  by (simp add: spawnElectron_below spawnElectron_above)

lemma spawnElectron_agree:
  assumes "agree_on rnd1 rnd2 (random_calls s) (random_calls (spawnElectron rnd1 ex ey a s))"
  shows "spawnElectron rnd1 ex ey a s = spawnElectron rnd2 ex ey a s"
proof (cases "below_threshold s")
  case True
  then show ?thesis by (simp add: spawnElectron_below)
next
  case False
  then have ag: "agree_on rnd1 rnd2 (random_calls s) (random_calls s + 2)"
    using assms by (simp add: spawnElectron_calls)
  have "rnd1 (random_calls s) = rnd2 (random_calls s)"
    "rnd1 (Suc (random_calls s)) = rnd2 (Suc (random_calls s))"
    using ag by (simp_all add: agree_on_def)
  then show ?thesis
    by (simp add: spawnElectron_above [OF False])
qed

lemma spawnRandomElectron_calls:
  "random_calls (spawnRandomElectron rnd s) =
     (if below_threshold s then random_calls s + 1 else random_calls s + 3)"
  by (simp add: spawnRandomElectron_below spawnRandomElectron_above)

lemma spawnRandomElectron_agree:
  assumes "agree_on rnd1 rnd2 (random_calls s) (random_calls (spawnRandomElectron rnd1 s))"
  shows "spawnRandomElectron rnd1 s = spawnRandomElectron rnd2 s"
proof -
  let ?s1 = "s\<lparr>random_calls := Suc (random_calls s)\<rparr>"
  have u: "rnd1 (random_calls s) = rnd2 (random_calls s)"
    using assms by (rule agree_on_at) (simp_all add: spawnRandomElectron_calls)
  have unfold: "spawnRandomElectron rnd s =
      spawnElectron rnd (350 + 180 * cos ((rnd (random_calls s) - 0.5) * 2 * 0.6) - 2)
        (250 + 180 * sin ((rnd (random_calls s) - 0.5) * 2 * 0.6))
        ((rnd (random_calls s) - 0.5) * 2 * 0.6 + pi) ?s1" for rnd
    by (simp add: spawnRandomElectron_def Let_def Math_random_def)
  have "agree_on rnd1 rnd2 (random_calls ?s1) (random_calls (spawnRandomElectron rnd1 s))"
    using assms by (rule agree_on_subrange) simp_all
  then show ?thesis
    unfolding unfold [of rnd1] unfold [of rnd2] u
    by (rule spawnElectron_agree)
qed

lemma guaranteed_spawns_calls_mono:
  "random_calls s \<le> random_calls (guaranteed_spawns rnd n s)"
proof (induction n arbitrary: s)
  case 0
  then show ?case by simp
next
  case (Suc n)
  have "random_calls s \<le> random_calls (spawnRandomElectron rnd s)"
    by (simp add: spawnRandomElectron_calls)
  also have "\<dots> \<le> random_calls (guaranteed_spawns rnd n (spawnRandomElectron rnd s))"
    by (rule Suc.IH)
  finally show ?case by simp
qed

lemma guaranteed_spawns_agree:
  assumes "agree_on rnd1 rnd2 (random_calls s) (random_calls (guaranteed_spawns rnd1 n s))"
  shows "guaranteed_spawns rnd1 n s = guaranteed_spawns rnd2 n s"
  using assms
proof (induction n arbitrary: s)
  case 0
  then show ?case by simp
next
  case (Suc n)
  let ?t = "spawnRandomElectron rnd1 s"
  have "agree_on rnd1 rnd2 (random_calls s) (random_calls ?t)"
    using Suc.prems guaranteed_spawns_calls_mono [of ?t rnd1 n]
    by (auto intro: agree_on_subrange)
  then have first: "?t = spawnRandomElectron rnd2 s"
    by (rule spawnRandomElectron_agree)
  have "agree_on rnd1 rnd2 (random_calls ?t) (random_calls (guaranteed_spawns rnd1 n ?t))"
    using Suc.prems by (rule agree_on_subrange) (simp_all add: spawnRandomElectron_calls)
  then have "guaranteed_spawns rnd1 n ?t = guaranteed_spawns rnd2 n ?t"
    by (rule Suc.IH)
  then show ?case
    using first by simp
qed

lemma spawning_logic_calls_mono:
  "random_calls s \<le> random_calls (spawning_logic rnd s)"
proof (cases "0 < intensity s")
  case True
  show ?thesis
    unfolding spawning_logic_unfold [OF True] Let_def
    using guaranteed_spawns_calls_mono [of s rnd "nat \<lfloor>intensity s * 0.03\<rfloor>"]
    by (simp add: spawnRandomElectron_calls)
next
  case False
  then show ?thesis by (simp add: spawning_logic_def)
qed

lemma spawning_logic_agree:
  assumes "agree_on rnd1 rnd2 (random_calls s) (random_calls (spawning_logic rnd1 s))"
  shows "spawning_logic rnd1 s = spawning_logic rnd2 s"
proof (cases "0 < intensity s")
  case True
  let ?n = "nat \<lfloor>intensity s * 0.03\<rfloor>"
  let ?r = "intensity s * 0.03 - real_of_int \<lfloor>intensity s * 0.03\<rfloor>"
  let ?s1 = "guaranteed_spawns rnd1 ?n s"
  let ?s2 = "?s1\<lparr>random_calls := Suc (random_calls ?s1)\<rparr>"
  have sl: "spawning_logic rnd1 s =
      (if rnd1 (random_calls ?s1) < ?r then spawnRandomElectron rnd1 ?s2 else ?s2)"
    using spawning_logic_unfold [OF True, of rnd1] by (simp add: Let_def)
  have calls: "Suc (random_calls ?s1) \<le> random_calls (spawning_logic rnd1 s)"
    unfolding sl by (simp add: spawnRandomElectron_calls)
  have "agree_on rnd1 rnd2 (random_calls s) (random_calls ?s1)"
    using assms calls by (auto intro: agree_on_subrange)
  then have g: "?s1 = guaranteed_spawns rnd2 ?n s"
    by (rule guaranteed_spawns_agree)
  have u: "rnd1 (random_calls ?s1) = rnd2 (random_calls ?s1)"
    using assms guaranteed_spawns_calls_mono [of s rnd1 ?n] calls
    by (auto intro: agree_on_at)
  have extra: "spawnRandomElectron rnd1 ?s2 = spawnRandomElectron rnd2 ?s2"
    if "rnd1 (random_calls ?s1) < ?r"
  proof (rule spawnRandomElectron_agree)
    have "random_calls (spawning_logic rnd1 s) = random_calls (spawnRandomElectron rnd1 ?s2)"
      using that by (simp add: sl)
    moreover have "random_calls s \<le> random_calls ?s2"
      using guaranteed_spawns_calls_mono [of s rnd1 ?n] by simp
    ultimately show "agree_on rnd1 rnd2 (random_calls ?s2)
        (random_calls (spawnRandomElectron rnd1 ?s2))"
      using assms by (auto intro: agree_on_subrange)
  qed
  have "spawning_logic rnd2 s =
      (if rnd2 (random_calls ?s1) < ?r then spawnRandomElectron rnd2 ?s2 else ?s2)"
    using spawning_logic_unfold [OF True, of rnd2] g by (simp add: Let_def)
  then show ?thesis
    using sl u extra by simp
next
  case False
  then show ?thesis by (simp add: spawning_logic_def)
qed

lemma loop_calls:
  "random_calls (loop rnd ts s) =
     random_calls (spawning_logic rnd
       (updateElectrons ts (s\<lparr>ph_time := ph_time s + 1, wavePhase := wavePhase s - 0.1\<rparr>)))"
  by (simp add: loop_def Let_def)

lemma loop_calls_mono: "random_calls s \<le> random_calls (loop rnd ts s)"
  using spawning_logic_calls_mono
    [of "updateElectrons ts (s\<lparr>ph_time := ph_time s + 1, wavePhase := wavePhase s - 0.1\<rparr>)" rnd]
  by (simp add: loop_calls)

lemma loop_agree:
  assumes "agree_on rnd1 rnd2 (random_calls s) (random_calls (loop rnd1 ts s))"
  shows "loop rnd1 ts s = loop rnd2 ts s"
proof -
  let ?s2 = "updateElectrons ts (s\<lparr>ph_time := ph_time s + 1, wavePhase := wavePhase s - 0.1\<rparr>)"
  have "agree_on rnd1 rnd2 (random_calls ?s2) (random_calls (spawning_logic rnd1 ?s2))"
    using assms by (simp add: loop_calls)
  then have "spawning_logic rnd1 ?s2 = spawning_logic rnd2 ?s2"
    by (rule spawning_logic_agree)
  then show ?thesis
    by (simp add: loop_def Let_def)
qed

lemma run_calls_mono: "random_calls s \<le> random_calls (run rnd tss s)"
proof (induction tss arbitrary: s)
  case Nil
  then show ?case by simp
next
  case (Cons ts tss)
  have "random_calls s \<le> random_calls (loop rnd ts s)" by (rule loop_calls_mono)
  also have "\<dots> \<le> random_calls (run rnd tss (loop rnd ts s))" by (rule Cons.IH)
  finally show ?case by simp
qed

lemma run_agree:
  assumes "agree_on rnd1 rnd2 (random_calls s) (random_calls (run rnd1 tss s))"
  shows "run rnd1 tss s = run rnd2 tss s"
  using assms
proof (induction tss arbitrary: s)
  case Nil
  then show ?case by simp
next
  case (Cons ts tss)
  let ?t = "loop rnd1 ts s"
  have "agree_on rnd1 rnd2 (random_calls s) (random_calls ?t)"
    using Cons.prems run_calls_mono [of ?t rnd1 tss] by (auto intro: agree_on_subrange)
  then have first: "?t = loop rnd2 ts s" by (rule loop_agree)
  have "agree_on rnd1 rnd2 (random_calls ?t) (random_calls (run rnd1 tss ?t))"
    using Cons.prems loop_calls_mono [of s rnd1 ts] by (auto intro: agree_on_subrange)
  then have "run rnd1 tss ?t = run rnd2 tss ?t" by (rule Cons.IH)
  then show ?case using first by simp
qed

lemma Electron_update_draw:
  assumes "u1 < 0.2 * fst (getTemperatureFactor (temperature st)) \<longleftrightarrow>
           u2 < 0.2 * fst (getTemperatureFactor (temperature st))"
  shows "Electron_update st u1 e = Electron_update st u2 e"
  using assms by (simp add: Electron_update_def Let_def)

lemma initial_frame_no_spawn:
  "electrons (loop (\<lambda>i. 0.5) 16 photo_initial) = []"
  by (simp add: loop_def Let_def updateElectrons_def spawning_logic_def Math_random_def
      photo_initial_def calculateRealCurrent_def)

lemma initial_frame_spawn:
  "length (electrons (loop (\<lambda>i. 0.1) 16 photo_initial)) = 1"
  by (simp add: loop_def Let_def updateElectrons_def spawning_logic_def Math_random_def
      photo_initial_def calculateRealCurrent_def spawnRandomElectron_def spawnElectron_def HC_def)

lemma initial_frame_calls:
  "random_calls (loop (\<lambda>i. 0.5) 16 photo_initial) = 1"
  by (simp add: loop_def Let_def updateElectrons_def spawning_logic_def Math_random_def
      photo_initial_def calculateRealCurrent_def)

text \<open>
  Claim C6 asks for runs that are determined by a seed, the parameters and the prior
  state. The code has no seed: it calls \<open>Math.random()\<close> directly. From the same
  state, with the same parameters and timestamp, one frame gives different results
  for different results of \<open>Math.random()\<close>.
\<close>

theorem run_differs_with_draws_counterexample:
  "run (\<lambda>i. 0.5) [16] photo_initial \<noteq> run (\<lambda>i. 0.1) [16] photo_initial \<and>
   electrons (run (\<lambda>i. 0.5) [16] photo_initial) = [] \<and>
   length (electrons (run (\<lambda>i. 0.1) [16] photo_initial)) = 1"
proof -
  have a: "electrons (run (\<lambda>i. 0.5) [16] photo_initial) = []"
    using initial_frame_no_spawn by simp
  have b: "length (electrons (run (\<lambda>i. 0.1) [16] photo_initial)) = 1"
    using initial_frame_spawn by simp
  have "run (\<lambda>i. 0.5) [16] photo_initial \<noteq> run (\<lambda>i. 0.1) [16] photo_initial"
  proof
    assume "run (\<lambda>i. 0.5) [16] photo_initial = run (\<lambda>i. 0.1) [16] photo_initial"
    then have "length (electrons (run (\<lambda>i. 0.5) [16] photo_initial)) =
        length (electrons (run (\<lambda>i. 0.1) [16] photo_initial))"
      by simp
    with a b show False by simp
  qed
  with a b show ?thesis by blast
qed

text \<open>
  Claim C6, amended. The randomness of a step comes from the calls of
  \<open>Math.random()\<close> it makes, and the step is a function of their results, the
  timestamps, the parameters and the prior state: two runs of any number of frames
  from the same state that receive the same results for the calls they make end in the
  same state (electrons, recorded hits and ammeter value included), whatever later
  calls would return; and \<open>Electron.update\<close> depends on its draw only through the
  outcome of the collision test.
\<close>

theorem simulation_determined_by_draws:
  "((\<forall>i \<in> {random_calls s..<random_calls (run rnd1 tss s)}. rnd1 i = rnd2 i) \<longrightarrow>
      run rnd1 tss s = run rnd2 tss s) \<and>
   ((u1 < 0.2 * fst (getTemperatureFactor (temperature st)) \<longleftrightarrow>
     u2 < 0.2 * fst (getTemperatureFactor (temperature st))) \<longrightarrow>
      Electron_update st u1 e = Electron_update st u2 e)"
  using run_agree [of rnd1 rnd2 s tss] Electron_update_draw [of u1 st u2 e]
  unfolding agree_on_def by blast

theorem simulation_determined_by_draws_witness:
  "run (\<lambda>i. 0.5) [16] photo_initial = run (\<lambda>i. if i < 1 then 0.5 else 0.9) [16] photo_initial \<and>
   Electron_update fh_initial 0.5
      \<lparr>e_x = Fin 40, e_y = Fin 100, e_vx = Fin 0.5, e_energy = Fin 0, e_active = True, e_color = ''#fff''\<rparr> =
   Electron_update fh_initial 0.9
      \<lparr>e_x = Fin 40, e_y = Fin 100, e_vx = Fin 0.5, e_energy = Fin 0, e_active = True, e_color = ''#fff''\<rparr>"
proof -
  have "\<forall>i \<in> {random_calls photo_initial..<random_calls (run (\<lambda>i. 0.5) [16] photo_initial)}.
      (\<lambda>i. 0.5) i = (\<lambda>i. if i < 1 then 0.5 else 0.9 :: real) i"
    using initial_frame_calls by (simp add: photo_initial_def)
  moreover have "(0.5::real) < 0.2 * fst (getTemperatureFactor (temperature fh_initial)) \<longleftrightarrow>
      (0.9::real) < 0.2 * fst (getTemperatureFactor (temperature fh_initial))"
    by (simp add: fh_initial_def getTemperatureFactor_def)
  ultimately show ?thesis
    using simulation_determined_by_draws [where s = photo_initial and ?rnd1.0 = "\<lambda>i. 0.5" and tss = "[16]"
        and ?rnd2.0 = "\<lambda>i. if i < 1 then 0.5 else 0.9" and ?u1.0 = "0.5" and st = fh_initial
        and ?u2.0 = "0.9" and e =
        "\<lparr>e_x = Fin 40, e_y = Fin 100, e_vx = Fin 0.5, e_energy = Fin 0, e_active = True, e_color = ''#fff''\<rparr>"]
    by blast
qed

subsection \<open>The ammeter\<close>

lemma calculateRealCurrent_history:
  "hitHistory (calculateRealCurrent ts s) = filter (\<lambda>t. ts - 500 < t) (hitHistory s)"
proof -
  have "(\<lambda>t. ts - t < 500) = (\<lambda>t. ts - 500 < t)"
    by (rule ext) linarith
  then show ?thesis
    by (simp add: calculateRealCurrent_def Let_def)
qed

lemma calculateRealCurrent_ammeter:
  "ammeterCurrent (calculateRealCurrent ts s) =
     ammeterCurrent s * 0.9 +
     (real (length (hitHistory (calculateRealCurrent ts s))) * 0.2 * (1000 / 500)) * 0.1"
  by (simp add: calculateRealCurrent_def Let_def)

lemma calculateRealCurrent_idle:
  assumes "\<forall>t \<in> set (hitHistory s). t \<le> ts - 500"
  shows "hitHistory (calculateRealCurrent ts s) = []"
    and "ammeterCurrent (calculateRealCurrent ts s) = 0.9 * ammeterCurrent s"
proof -
  show h: "hitHistory (calculateRealCurrent ts s) = []"
    unfolding calculateRealCurrent_history using assms by (auto simp: filter_empty_conv)
  show "ammeterCurrent (calculateRealCurrent ts s) = 0.9 * ammeterCurrent s"
    by (subst calculateRealCurrent_ammeter) (simp add: h)
qed

lemma fold_calculateRealCurrent_idle:
  assumes "\<forall>ts \<in> set tss. \<forall>t \<in> set (hitHistory s). t \<le> ts - 500"
  shows "ammeterCurrent (fold calculateRealCurrent tss s) = 0.9 ^ length tss * ammeterCurrent s"
  using assms
proof (induction tss arbitrary: s)
  case Nil
  then show ?case by simp
next
  case (Cons ts tss)
  let ?s1 = "calculateRealCurrent ts s"
  have idle: "\<forall>t \<in> set (hitHistory s). t \<le> ts - 500"
    using Cons.prems by simp
  have "hitHistory ?s1 = []" by (rule calculateRealCurrent_idle(1) [OF idle])
  then have "\<forall>ts' \<in> set tss. \<forall>t \<in> set (hitHistory ?s1). t \<le> ts' - 500" by simp
  then have "ammeterCurrent (fold calculateRealCurrent tss ?s1) =
      0.9 ^ length tss * ammeterCurrent ?s1"
    by (rule Cons.IH)
  then show ?case
    by (simp add: calculateRealCurrent_idle(2) [OF idle])
qed

text \<open>
  Claim C3. \<open>calculateRealCurrent\<close> first keeps the hits with timestamp strictly
  newer than \<open>timestamp - 500\<close>, then computes the rate
  \<open>count * 0.2 * (1000 / 500)\<close> from their number, then sets the ammeter value to
  \<open>0.9 * smoothed + 0.1 * rate\<close>. After the step every hit in the history is inside
  the window. Once every recorded hit is at least 500 ms old the rate is \<open>0\<close>, each
  further step multiplies the ammeter value by \<open>0.9\<close>, and \<open>0.9 ^ n * a\<close> tends to
  \<open>0\<close>.
\<close>

theorem calculateRealCurrent_window_and_smoothing:
  "hitHistory (calculateRealCurrent ts s) = filter (\<lambda>t. ts - 500 < t) (hitHistory s) \<and>
   ammeterCurrent (calculateRealCurrent ts s) =
     0.9 * ammeterCurrent s +
     0.1 * (real (length (hitHistory (calculateRealCurrent ts s))) * 0.2 * (1000 / 500)) \<and>
   (\<forall>t \<in> set (hitHistory (calculateRealCurrent ts s)). ts - 500 < t) \<and>
   ((\<forall>t \<in> set (hitHistory s). t \<le> ts - 500) \<longrightarrow>
      real (length (hitHistory (calculateRealCurrent ts s))) * 0.2 * (1000 / 500) = 0 \<and>
      ammeterCurrent (calculateRealCurrent ts s) = 0.9 * ammeterCurrent s) \<and>
   ((\<forall>ts' \<in> set tss. \<forall>t \<in> set (hitHistory s). t \<le> ts' - 500) \<longrightarrow>
      ammeterCurrent (fold calculateRealCurrent tss s) = 0.9 ^ length tss * ammeterCurrent s) \<and>
   (\<lambda>n. 0.9 ^ n * ammeterCurrent s) \<longlonglongrightarrow> 0"
proof -
  have lim: "(\<lambda>n. 0.9 ^ n * ammeterCurrent s) \<longlonglongrightarrow> 0"
  proof -
    have "(\<lambda>n. (0.9::real) ^ n) \<longlonglongrightarrow> 0"
      by (rule LIMSEQ_realpow_zero) simp_all
    then have "(\<lambda>n. 0.9 ^ n * ammeterCurrent s) \<longlonglongrightarrow> 0 * ammeterCurrent s"
      by (rule tendsto_mult_right)
    then show ?thesis by simp
  qed
  have win: "\<forall>t \<in> set (hitHistory (calculateRealCurrent ts s)). ts - 500 < t"
    by (simp add: calculateRealCurrent_history)
  have inst: "(\<forall>t \<in> set (hitHistory s). t \<le> ts - 500) \<longrightarrow>
      real (length (hitHistory (calculateRealCurrent ts s))) * 0.2 * (1000 / 500) = 0 \<and>
      ammeterCurrent (calculateRealCurrent ts s) = 0.9 * ammeterCurrent s"
    using calculateRealCurrent_idle [of s ts] by simp
  have amm: "ammeterCurrent (calculateRealCurrent ts s) =
     0.9 * ammeterCurrent s +
     0.1 * (real (length (hitHistory (calculateRealCurrent ts s))) * 0.2 * (1000 / 500))"
    by (subst calculateRealCurrent_ammeter) simp
  have decay: "(\<forall>ts' \<in> set tss. \<forall>t \<in> set (hitHistory s). t \<le> ts' - 500) \<longrightarrow>
      ammeterCurrent (fold calculateRealCurrent tss s) = 0.9 ^ length tss * ammeterCurrent s"
    using fold_calculateRealCurrent_idle [of tss s] by blast
  from calculateRealCurrent_history [of ts s] amm win inst decay lim
  show ?thesis by (intro conjI)
qed

theorem calculateRealCurrent_window_and_smoothing_witness:
  "hitHistory (calculateRealCurrent 1000 (photo_initial\<lparr>hitHistory := [100, 700, 900], ammeterCurrent := 10\<rparr>))
     = [700, 900] \<and>
   ammeterCurrent (calculateRealCurrent 1000 (photo_initial\<lparr>hitHistory := [100, 700, 900], ammeterCurrent := 10\<rparr>))
     = 9.08 \<and>
   ammeterCurrent (fold calculateRealCurrent [1000, 1016] (photo_initial\<lparr>hitHistory := [100, 200], ammeterCurrent := 10\<rparr>))
     = 8.1"
  using calculateRealCurrent_window_and_smoothing
      [of 1000 "photo_initial\<lparr>hitHistory := [100, 700, 900], ammeterCurrent := 10\<rparr>" "[]"]
    calculateRealCurrent_window_and_smoothing
      [of 1000 "photo_initial\<lparr>hitHistory := [100, 200], ammeterCurrent := 10\<rparr>" "[1000, 1016]"]
  by (simp add: photo_initial_def power2_eq_square)

subsection \<open>Franck--Hertz current\<close>

declare modulation_loop.simps [simp del]

lemma dip_term_nonneg: "0 \<le> dip_term v k"
  by (simp add: dip_term_def)

lemma modulation_loop_continue:
  "k < 15 \<Longrightarrow> real k * 4.9 - 1 \<le> v \<Longrightarrow>
   modulation_loop v k m = modulation_loop v (Suc k) (m + dip_term v k)"
  by (subst modulation_loop.simps)
     (simp add: Let_def dip_term_def EXCITATION_ENERGY_def CONTACT_POTENTIAL_def)

lemma modulation_loop_break:
  "v < real k * 4.9 - 1 \<Longrightarrow> modulation_loop v k m = m"
  by (subst modulation_loop.simps)
     (simp add: Let_def EXCITATION_ENERGY_def CONTACT_POTENTIAL_def)

lemma modulation_loop_end:
  "15 \<le> k \<Longrightarrow> modulation_loop v k m = m"
  by (subst modulation_loop.simps) simp

lemma modulation_loop_ge: "m \<le> modulation_loop v k m"
proof (induction "15 - k" arbitrary: k m)
  case 0
  then show ?case by (simp add: modulation_loop_end)
next
  case (Suc n)
  then have k: "k < 15" by simp
  show ?case
  proof (cases "v < real k * 4.9 - 1")
    case True
    then show ?thesis by (simp only: modulation_loop_break)
  next
    case False
    then have c: "real k * 4.9 - 1 \<le> v" by simp
    have "n = 15 - Suc k" using Suc.hyps(2) by simp
    then have "m + dip_term v k \<le> modulation_loop v (Suc k) (m + dip_term v k)"
      by (rule Suc.hyps(1))
    then have "m \<le> modulation_loop v (Suc k) (m + dip_term v k)"
      using dip_term_nonneg [of v k] by linarith
    then show ?thesis
      by (simp only: modulation_loop_continue [OF k c])
  qed
qed

lemma modulation_loop_le:
  assumes "\<And>j. k \<le> j \<Longrightarrow> j < 15 \<Longrightarrow> dip_term v j \<le> b"
  shows "modulation_loop v k m \<le> m + real (15 - k) * b"
  using assms
proof (induction "15 - k" arbitrary: k m)
  case 0
  then show ?case by (simp add: modulation_loop_end)
next
  case (Suc n)
  then have k: "k < 15" by simp
  have bk: "dip_term v k \<le> b" using Suc.prems [of k] k by simp
  then have b0: "0 \<le> b" using dip_term_nonneg [of v k] by linarith
  show ?case
  proof (cases "v < real k * 4.9 - 1")
    case True
    then show ?thesis using b0 by (simp add: modulation_loop_break)
  next
    case False
    then have c: "real k * 4.9 - 1 \<le> v" by simp
    have n: "n = 15 - Suc k" using Suc.hyps(2) by simp
    have "modulation_loop v (Suc k) (m + dip_term v k) \<le> m + dip_term v k + real (15 - Suc k) * b"
      using Suc.prems by (intro Suc.hyps(1) [OF n]) simp
    moreover have "real (15 - k) = real (15 - Suc k) + 1" using k by simp
    ultimately have "modulation_loop v (Suc k) (m + dip_term v k) \<le> m + real (15 - k) * b"
      using bk by (simp add: algebra_simps)
    then show ?thesis
      by (simp only: modulation_loop_continue [OF k c])
  qed
qed

lemma exp_minus_le_half_pow:
  fixes x :: real
  assumes "real n \<le> x"
  shows "exp (- x) \<le> (1 / 2) ^ n"
proof -
  have "(2::real) \<le> exp 1"
    using exp_ge_add_one_self [of "1::real"] by simp
  then have "(2::real) ^ n \<le> exp 1 ^ n"
    by (intro power_mono) simp_all
  also have "\<dots> = exp (real n)"
    by (simp add: exp_of_nat_mult [symmetric])
  also have "\<dots> \<le> exp x" using assms by simp
  finally have "2 ^ n \<le> exp x" .
  then have "1 / exp x \<le> 1 / 2 ^ n"
    by (intro divide_left_mono) simp_all
  then show ?thesis
    by (simp add: exp_minus field_simps)
qed

lemma powr_three_halves:
  fixes x :: real
  assumes "0 \<le> x"
  shows "x powr 1.5 = x * sqrt x"
proof -
  have "x powr 1.5 = x powr (1 + 1 / 2)" by simp
  also have "\<dots> = x powr 1 * x powr (1 / 2)" by (rule powr_add)
  also have "\<dots> = x * sqrt x" using assms by (simp add: powr_half_sqrt)
  finally show ?thesis .
qed

lemma calculateCurrent_180:
  assumes "temperature st = 180" "0 \<le> v"
  shows "calculateCurrent st v =
           v powr 1.5 * 0.2 * 0.8 * max 0.1 (1 - 0.8 * modulation_loop v 1 0)"
  using assms by (simp add: calculateCurrent_def getTemperatureFactor_def Let_def)

lemma dipFactor_ge:
  fixes m :: real
  shows "m \<le> 0.001 \<Longrightarrow> 0.999 \<le> max 0.1 (1 - 0.8 * m)"
  by simp

lemma dipFactor_le_one:
  fixes m :: real
  shows "0 \<le> m \<Longrightarrow> max 0.1 (1 - 0.8 * m) \<le> 1"
  by simp

lemma current_compare:
  fixes a b d1 d2 :: real
  assumes "0 \<le> a" "a < b * 0.999" "d1 \<le> 1" "0.999 \<le> d2"
  shows "a * 0.2 * 0.8 * d1 < b * 0.2 * 0.8 * d2"
proof -
  have b: "0 < b" using assms(1,2) by simp
  have "a * d1 \<le> a * 1" using assms(1,3) by (intro mult_left_mono) simp_all
  also have "\<dots> < b * 0.999" using assms(2) by simp
  also have "\<dots> \<le> b * d2" using b assms(4) by (intro mult_left_mono) simp_all
  finally show ?thesis by simp
qed

lemma calculateCurrent_order_15:
  assumes "temperature st = 180"
  shows "calculateCurrent st (15 * 4.9 + 2.0 - 1) < calculateCurrent st (15 * 4.9 + 2.0)"
proof -
  have v: "(15 * 4.9 + 2.0 :: real) = 75.5" by simp
  have small: "dip_term 75.5 j \<le> (1 / 2) ^ 16" if "j < 15" for j
  proof -
    have "real j \<le> 14" using that by simp
    then have "4.9 \<le> 73.5 - real j * 4.9" by simp
    then have "4.9 * 4.9 \<le> (73.5 - real j * 4.9) * (73.5 - real j * 4.9)"
      by (intro mult_mono) simp_all
    then have "real 16 \<le> ((75.5 - (real j * 4.9 + 2)) * (75.5 - (real j * 4.9 + 2))) / 1.5"
      by (simp add: algebra_simps)
    from exp_minus_le_half_pow [OF this] show ?thesis
      by (simp add: dip_term_def)
  qed
  have M1: "modulation_loop 75.5 1 0 \<le> 14 * (1 / 2) ^ 16"
    using modulation_loop_le [of 1 "75.5" "(1 / 2) ^ 16" 0] small by simp
  have M2: "0 \<le> modulation_loop 74.5 1 0"
    by (rule modulation_loop_ge)
  have "(14::real) * (1 / 2) ^ 16 \<le> 0.001" by (simp add: power_one_over)
  with M1 have M1': "modulation_loop 75.5 1 0 \<le> 0.001" by linarith
  have lo: "0.999 \<le> max 0.1 (1 - 0.8 * modulation_loop 75.5 1 0)"
    by (rule dipFactor_ge [OF M1'])
  have hi: "max 0.1 (1 - 0.8 * modulation_loop 74.5 1 0) \<le> 1"
    by (rule dipFactor_le_one [OF M2])
  have s: "sqrt 74.5 \<le> sqrt (75.5::real)" by simp
  have p: "0 < sqrt (75.5::real)" by simp
  have "74.5 * sqrt 74.5 \<le> 74.5 * sqrt (75.5::real)"
    using s by simp
  also have "\<dots> < 75.5 * sqrt (75.5::real) * 0.999"
    using p by simp
  finally have "74.5 * sqrt 74.5 < 75.5 * sqrt (75.5::real) * 0.999" .
  moreover have "(74.5::real) powr 1.5 = 74.5 * sqrt 74.5"
    by (rule powr_three_halves) simp
  moreover have "(75.5::real) powr 1.5 = 75.5 * sqrt 75.5"
    by (rule powr_three_halves) simp
  ultimately have pw: "(74.5::real) powr 1.5 < 75.5 powr 1.5 * 0.999"
    by (simp only:)
  have c1: "calculateCurrent st 74.5 =
      74.5 powr 1.5 * 0.2 * 0.8 * max 0.1 (1 - 0.8 * modulation_loop 74.5 1 0)"
    by (rule calculateCurrent_180 [OF assms]) simp
  have c2: "calculateCurrent st 75.5 =
      75.5 powr 1.5 * 0.2 * 0.8 * max 0.1 (1 - 0.8 * modulation_loop 75.5 1 0)"
    by (rule calculateCurrent_180 [OF assms]) simp
  have "calculateCurrent st 74.5 < calculateCurrent st 75.5"
    unfolding c1 c2 by (rule current_compare [OF _ pw hi lo]) simp
  then show ?thesis by (simp only: v) simp
qed

lemma modulation_loop_ge_term:
  assumes "k \<le> n" "n < 15" "\<And>j. k \<le> j \<Longrightarrow> j \<le> n \<Longrightarrow> real j * 4.9 - 1 \<le> v"
  shows "m + dip_term v n \<le> modulation_loop v k m"
  using assms
proof (induction "n - k" arbitrary: k m)
  case 0
  then have kn: "k = n" by simp
  have c: "real n * 4.9 - 1 \<le> v" using "0.prems"(3) [of n] kn by simp
  have "m + dip_term v n \<le> modulation_loop v (Suc n) (m + dip_term v n)"
    by (rule modulation_loop_ge)
  then show ?case
    unfolding kn by (simp only: modulation_loop_continue [OF "0.prems"(2) c])
next
  case (Suc d)
  then have k: "k < 15" and kn: "Suc k \<le> n" by simp_all
  have c: "real k * 4.9 - 1 \<le> v" using Suc.prems(3) [of k] Suc.prems(1) by simp
  have d: "d = n - Suc k" using Suc.hyps(2) by simp
  have "m + dip_term v k + dip_term v n \<le> modulation_loop v (Suc k) (m + dip_term v k)"
    using Suc.prems by (intro Suc.hyps(1) [OF d kn]) simp_all
  then have "m + dip_term v n \<le> modulation_loop v (Suc k) (m + dip_term v k)"
    using dip_term_nonneg [of v k] by linarith
  then show ?case
    by (simp only: modulation_loop_continue [OF k c])
qed

lemma modulation_loop_le_sum:
  assumes "\<And>j. k \<le> j \<Longrightarrow> j < 15 \<Longrightarrow> real j * 4.9 - 1 \<le> v \<Longrightarrow> dip_term v j \<le> b j"
    and "\<And>j. 0 \<le> b j"
  shows "modulation_loop v k m \<le> m + (\<Sum>j = k..<15. b j)"
  using assms(1)
proof (induction "15 - k" arbitrary: k m)
  case 0
  then show ?case by (simp add: modulation_loop_end)
next
  case (Suc n)
  then have k: "k < 15" by simp
  have split: "(\<Sum>j = k..<15. b j) = b k + (\<Sum>j = Suc k..<15. b j)"
    using k by (simp add: sum.atLeast_Suc_lessThan)
  have nonneg: "0 \<le> (\<Sum>j = k..<15. b j)"
    by (intro sum_nonneg assms(2))
  show ?case
  proof (cases "v < real k * 4.9 - 1")
    case True
    then show ?thesis using nonneg by (simp add: modulation_loop_break)
  next
    case False
    then have c: "real k * 4.9 - 1 \<le> v" by simp
    have n: "n = 15 - Suc k" using Suc.hyps(2) by simp
    have "modulation_loop v (Suc k) (m + dip_term v k)
            \<le> m + dip_term v k + (\<Sum>j = Suc k..<15. b j)"
      using Suc.prems by (intro Suc.hyps(1) [OF n]) simp
    moreover have "dip_term v k \<le> b k" using Suc.prems [of k] k c by simp
    ultimately have "modulation_loop v (Suc k) (m + dip_term v k) \<le> m + (\<Sum>j = k..<15. b j)"
      unfolding split by linarith
    then show ?thesis
      by (simp only: modulation_loop_continue [OF k c])
  qed
qed

lemma exp_minus_two_thirds: "exp (- (2 / 3)) \<le> (9 / 16 :: real)"
proof -
  have "(4 / 3 :: real) \<le> exp (1 / 3)"
    using exp_ge_add_one_self [of "1 / 3 :: real"] by simp
  then have "(4 / 3 :: real) ^ 2 \<le> exp (1 / 3) ^ 2"
    by (intro power_mono) simp_all
  also have "\<dots> = exp (2 / 3 :: real)"
    by (simp add: exp_double [symmetric])
  finally have "(16 / 9 :: real) \<le> exp (2 / 3)"
    by (simp add: power2_eq_square)
  then have "1 / exp (2 / 3 :: real) \<le> 1 / (16 / 9)"
    by (intro divide_left_mono) simp_all
  then show ?thesis
    by (simp add: exp_minus field_simps)
qed

text \<open>Next to a dip at order n (one volt off), the sum is at most 0.58.\<close>

lemma modulation_beside_dip:
  assumes "1 \<le> n" "n < 15" "\<bar>off\<bar> = 1"
  shows "modulation_loop (real n * 4.9 + 2 + off) 1 0 \<le> 0.58"
proof -
  let ?v = "real n * 4.9 + 2 + off"
  let ?b = "\<lambda>j. (1 / 2) ^ 10 + (if j = n then 9 / 16 else (0::real))"
  have bound: "dip_term ?v j \<le> ?b j" if "1 \<le> j" "j < 15" "real j * 4.9 - 1 \<le> ?v" for j
  proof -
    have le: "j \<le> n"
    proof (rule ccontr)
      assume "\<not> j \<le> n"
      then have "real n + 1 \<le> real j" by simp
      then have "real n * 4.9 + 4.9 \<le> real j * 4.9" by simp
      with that(3) assms(3) show False by (simp add: abs_if split: if_splits)
    qed
    show ?thesis
    proof (cases "j = n")
      case True
      have "dip_term ?v n = exp (- (2 / 3))"
        using assms(3) by (auto simp: dip_term_def abs_if split: if_splits)
      moreover have "(0::real) \<le> (1 / 2) ^ 10" by simp
      ultimately have "dip_term ?v n \<le> (1 / 2) ^ 10 + 9 / 16"
        using exp_minus_two_thirds by linarith
      then show ?thesis using True by simp
    next
      case False
      with le have "real j + 1 \<le> real n" by simp
      then have "4.9 \<le> real n * 4.9 - real j * 4.9" by simp
      then have "3.9 \<le> ?v - (real j * 4.9 + 2)"
        using assms(3) by (simp add: abs_if split: if_splits)
      then have "3.9 * 3.9 \<le> (?v - (real j * 4.9 + 2)) * (?v - (real j * 4.9 + 2))"
        by (intro mult_mono) simp_all
      then have "real 10 \<le> ((?v - (real j * 4.9 + 2)) * (?v - (real j * 4.9 + 2))) / 1.5"
        by simp
      from exp_minus_le_half_pow [OF this] have "dip_term ?v j \<le> (1 / 2) ^ 10"
        by (simp add: dip_term_def)
      then show ?thesis using False by simp
    qed
  qed
  have "modulation_loop ?v 1 0 \<le> 0 + (\<Sum>j = 1..<15. ?b j)"
    by (rule modulation_loop_le_sum) (use bound in simp_all)
  also have "(\<Sum>j = 1..<15. ?b j) = 14 * (1 / 2) ^ 10 + 9 / 16"
    using assms by (simp add: sum.distrib)
  also have "0 + (14 * (1 / 2) ^ 10 + 9 / 16) \<le> (0.58::real)"
    by (simp add: power_one_over)
  finally show ?thesis by simp
qed

lemma modulation_at_dip:
  assumes "1 \<le> n" "n < 15"
  shows "1 \<le> modulation_loop (real n * 4.9 + 2) 1 0"
proof -
  have "0 + dip_term (real n * 4.9 + 2) n \<le> modulation_loop (real n * 4.9 + 2) 1 0"
    using assms by (intro modulation_loop_ge_term) simp_all
  then show ?thesis by (simp add: dip_term_def)
qed

lemma dipFactor_at_dip:
  fixes m :: real
  shows "1 \<le> m \<Longrightarrow> max 0.1 (1 - 0.8 * m) \<le> 0.2"
  by (simp add: max_def)

lemma dipFactor_beside_dip:
  fixes m :: real
  shows "m \<le> 0.58 \<Longrightarrow> 0.53 \<le> max 0.1 (1 - 0.8 * m)"
  by simp

lemma dip_compare:
  fixes a b d1 d2 :: real
  assumes "0 \<le> a" "a * 0.2 < b * 0.53" "d1 \<le> 0.2" "0.53 \<le> d2"
  shows "a * 0.2 * 0.8 * d1 < b * 0.2 * 0.8 * d2"
proof -
  have b: "0 < b" using assms(1,2) by (simp add: zero_less_mult_iff)
  have "a * d1 \<le> a * 0.2" using assms(1,3) by (intro mult_left_mono) simp_all
  also have "\<dots> < b * 0.53" by (rule assms(2))
  also have "\<dots> \<le> b * d2" using b assms(4) by (intro mult_left_mono) simp_all
  finally show ?thesis by simp
qed

lemma powr_below_dip:
  fixes v :: real
  assumes "6.9 \<le> v"
  shows "v powr 1.5 * 0.2 < (v - 1) powr 1.5 * 0.53"
proof -
  have v: "0 < v" using assms by simp
  have sv: "0 < sqrt v" using v by simp
  have lin: "0.81 * v \<le> v - 1" using assms by simp
  have "0.9 * sqrt v = sqrt (0.81 * v)"
    by (simp add: real_sqrt_mult real_sqrt_divide)
  also have "\<dots> \<le> sqrt (v - 1)" using lin by simp
  finally have rt: "0.9 * sqrt v \<le> sqrt (v - 1)" .
  have "v * sqrt v * 0.2 < (0.81 * v) * (0.9 * sqrt v) * 0.53"
    using v sv by (simp add: field_simps)
  also have "\<dots> \<le> (v - 1) * sqrt (v - 1) * 0.53"
    using lin rt v sv by (intro mult_right_mono mult_mono) simp_all
  finally have "v * sqrt v * 0.2 < (v - 1) * sqrt (v - 1) * 0.53" .
  moreover have "v powr 1.5 = v * sqrt v"
    by (rule powr_three_halves) (use v in simp)
  moreover have "(v - 1) powr 1.5 = (v - 1) * sqrt (v - 1)"
    by (rule powr_three_halves) (use assms in simp)
  ultimately show ?thesis by (simp only:)
qed

lemma powr_above_dip:
  fixes v :: real
  assumes "0 < v"
  shows "v powr 1.5 * 0.2 < (v + 1) powr 1.5 * 0.53"
proof -
  have p: "0 < v powr 1.5" using assms by simp
  have le: "v powr 1.5 \<le> (v + 1) powr 1.5"
    using assms by (intro powr_mono2) simp_all
  have "\<And>a b :: real. 0 < a \<Longrightarrow> a \<le> b \<Longrightarrow> a * 0.2 < b * 0.53"
    by simp
  from this [OF p le] show ?thesis .
qed

lemma calculateCurrent_local_minimum:
  assumes "temperature st = 180" "1 \<le> n" "n \<le> 14"
  shows "calculateCurrent st (real n * 4.9 + 2.0) < calculateCurrent st (real n * 4.9 + 2.0 - 1)"
    and "calculateCurrent st (real n * 4.9 + 2.0) < calculateCurrent st (real n * 4.9 + 2.0 + 1)"
proof -
  define v where "v = real n * 4.9 + 2"
  have n15: "n < 15" using assms(3) by simp
  have "1 \<le> real n" using assms(2) by simp
  then have v69: "6.9 \<le> v" by (simp add: v_def)
  then have v0: "0 \<le> v" "0 \<le> v - 1" "0 \<le> v + 1" "0 < v" by simp_all
  have c0: "calculateCurrent st v =
      v powr 1.5 * 0.2 * 0.8 * max 0.1 (1 - 0.8 * modulation_loop v 1 0)"
    by (rule calculateCurrent_180 [OF assms(1) v0(1)])
  have cm: "calculateCurrent st (v - 1) =
      (v - 1) powr 1.5 * 0.2 * 0.8 * max 0.1 (1 - 0.8 * modulation_loop (v - 1) 1 0)"
    by (rule calculateCurrent_180 [OF assms(1) v0(2)])
  have cp: "calculateCurrent st (v + 1) =
      (v + 1) powr 1.5 * 0.2 * 0.8 * max 0.1 (1 - 0.8 * modulation_loop (v + 1) 1 0)"
    by (rule calculateCurrent_180 [OF assms(1) v0(3)])
  have d0: "max 0.1 (1 - 0.8 * modulation_loop v 1 0) \<le> 0.2"
    unfolding v_def by (rule dipFactor_at_dip [OF modulation_at_dip [OF assms(2) n15]])
  have "modulation_loop (real n * 4.9 + 2 + (- 1)) 1 0 \<le> 0.58"
    by (rule modulation_beside_dip [OF assms(2) n15]) simp
  then have dm: "0.53 \<le> max 0.1 (1 - 0.8 * modulation_loop (v - 1) 1 0)"
    unfolding v_def by (intro dipFactor_beside_dip) simp
  have "modulation_loop (real n * 4.9 + 2 + 1) 1 0 \<le> 0.58"
    by (rule modulation_beside_dip [OF assms(2) n15]) simp
  then have dp: "0.53 \<le> max 0.1 (1 - 0.8 * modulation_loop (v + 1) 1 0)"
    unfolding v_def by (intro dipFactor_beside_dip) simp
  have p0: "0 \<le> v powr 1.5" by simp
  have "calculateCurrent st v < calculateCurrent st (v - 1)"
    unfolding c0 cm by (rule dip_compare [OF p0 powr_below_dip [OF v69] d0 dm])
  then show "calculateCurrent st (real n * 4.9 + 2.0) < calculateCurrent st (real n * 4.9 + 2.0 - 1)"
    by (simp add: v_def)
  have "calculateCurrent st v < calculateCurrent st (v + 1)"
    unfolding c0 cp by (rule dip_compare [OF p0 powr_above_dip [OF v0(4)] d0 dp])
  then show "calculateCurrent st (real n * 4.9 + 2.0) < calculateCurrent st (real n * 4.9 + 2.0 + 1)"
    by (simp add: v_def)
qed

text \<open>
  Claim C4. At 180 degrees the dip strength is 1. For the collision orders
  \<open>n = 1, ..., 14\<close> the computed current at \<open>n * 4.9 + 2.0\<close> volts is strictly below
  the current one volt lower and one volt higher (lemma
  \<open>calculateCurrent_local_minimum\<close>). The loop over the collision orders stops
  before \<open>k = 15\<close>, so the dip of order 15, at 75.5 volts and inside the range of 0 to
  80 volts that the automatic scan covers, is never subtracted: there the current is
  above the current one volt lower.
\<close>

theorem calculateCurrent_no_dip_at_order_15:
  "calculateCurrent fh_initial (15 * 4.9 + 2.0 - 1) < calculateCurrent fh_initial (15 * 4.9 + 2.0)"
  by (rule calculateCurrent_order_15) (simp add: fh_initial_def)

subsection \<open>Finite positions and velocities\<close>

text \<open>
  The electrons of the tube animation: what \<open>update\<close> computes in each of its
  three regions, and the preservation of \<open>Electron_bounded\<close>.
\<close>

lemma jsnum_between:
  assumes "Fin l \<le> z" "z \<le> Fin u"
  obtains a where "z = Fin a" "l \<le> a" "a \<le> u"
  using assms by (cases z) auto

lemma Electron_boundedD:
  assumes "Electron_bounded w e"
  obtains a b c en where "e_x e = Fin a" "e_y e = Fin b" "e_vx e = Fin c" "e_energy e = Fin en"
    "40 \<le> a" "a \<le> w + 40" "- 50 \<le> b" "b \<le> 100050" "0 \<le> c" "c \<le> 30" "0 \<le> en" "en \<le> 3100"
    "a < w - 60 \<and> w - 100 \<noteq> 0 \<longrightarrow> en \<le> 100 / (w - 100) * (a - 40)"
proof -
  from assms have r: "Fin 40 \<le> e_x e" "e_x e \<le> Fin (w + 40)" "Fin (- 50) \<le> e_y e"
    "e_y e \<le> Fin 100050" "Fin 0 \<le> e_vx e" "e_vx e \<le> Fin 30" "Fin 0 \<le> e_energy e"
    "e_energy e \<le> Fin 3100"
    by (simp_all add: Electron_bounded_def Electron_in_range_def)
  from r(1,2) obtain a where a: "e_x e = Fin a" "40 \<le> a" "a \<le> w + 40"
    by (rule jsnum_between)
  from r(3,4) obtain b where b: "e_y e = Fin b" "- 50 \<le> b" "b \<le> 100050"
    by (rule jsnum_between)
  from r(5,6) obtain c where c: "e_vx e = Fin c" "0 \<le> c" "c \<le> 30"
    by (rule jsnum_between)
  from r(7,8) obtain en where en: "e_energy e = Fin en" "0 \<le> en" "en \<le> 3100"
    by (rule jsnum_between)
  have rel: "a < w - 60 \<and> w - 100 \<noteq> 0 \<longrightarrow> en \<le> 100 / (w - 100) * (a - 40)"
    using assms a(1) en(1) by (auto simp: Electron_bounded_def Fin_times)
  show ?thesis
    by (rule that [OF a(1) b(1) c(1) en(1) a(2,3) b(2,3) c(2,3) en(2,3) rel])
qed

lemma Electron_update_inactive:
  "\<not> e_active e \<Longrightarrow> fst (Electron_update st u e) = e"
  by (simp add: Electron_update_def)

lemma Electron_update_accelerating:
  fixes st :: fh_state and u a c en :: real and e :: Electron
  assumes "e_active e" "e_x e = Fin a" "e_vx e = Fin c" "e_energy e = Fin en"
    and "a < tubeCanvas_width st - 60" "tubeCanvas_width st - 100 \<noteq> 0"
    and "0 \<le> en + vAcc st / (tubeCanvas_width st - 100) * c"
  defines "en1 \<equiv> en + vAcc st / (tubeCanvas_width st - 100) * c"
  defines "hit \<equiv> EXCITATION_ENERGY \<le> en1 \<and> 0.01 < fst (getTemperatureFactor (temperature st)) \<and>
                  u < 0.2 * fst (getTemperatureFactor (temperature st))"
  shows "e_x (fst (Electron_update st u e)) = Fin (a + c)"
    and "e_y (fst (Electron_update st u e)) = e_y e"
    and "e_active (fst (Electron_update st u e))"
    and "e_energy (fst (Electron_update st u e)) = Fin (if hit then en1 - EXCITATION_ENERGY else en1)"
    and "e_vx (fst (Electron_update st u e)) = Fin (if hit then 0.5 else 1 + sqrt en1 * 0.5)"
  using assms(1-7) unfolding en1_def hit_def
  by (simp_all add: Electron_update_def Let_def Fin_times Fin_plus)

lemma Electron_update_retarding:
  assumes "e_active e" "e_x e = Fin a" "e_vx e = Fin c" "e_energy e = Fin en"
    and "\<not> a < tubeCanvas_width st - 60" "a < tubeCanvas_width st - 20"
  shows "e_x (fst (Electron_update st u e)) = Fin (a + c)"
    and "e_y (fst (Electron_update st u e)) = e_y e"
    and "e_vx (fst (Electron_update st u e)) = Fin c"
    and "e_energy (fst (Electron_update st u e)) = Fin (en - vRet st / 40 * c)"
    and "e_active (fst (Electron_update st u e)) \<longleftrightarrow> \<not> en - vRet st / 40 * c \<le> 0"
  using assms
  by (simp_all add: Electron_update_def Let_def Fin_times Fin_plus)

lemma Electron_update_beyond:
  assumes "e_active e" "e_x e = Fin a" "\<not> a < tubeCanvas_width st - 60" "\<not> a < tubeCanvas_width st - 20"
  shows "fst (Electron_update st u e) = e\<lparr>e_active := False\<rparr>"
  using assms
  by (simp add: Electron_update_def Let_def)

lemma Electron_in_rangeI:
  assumes "e_x e = Fin a" "e_y e = Fin b" "e_vx e = Fin c" "e_energy e = Fin en"
    and "40 \<le> a" "a \<le> w + 40" "- 50 \<le> b" "b \<le> 100050" "0 \<le> c" "c \<le> 30"
    and "- 100 \<le> en" "en \<le> 3100"
  shows "Electron_in_range w e"
  using assms by (simp add: Electron_in_range_def)

lemma Electron_boundedI:
  assumes "Electron_in_range w e" "e_x e = Fin a" "e_energy e = Fin en" "0 \<le> en"
    and "a < w - 60 \<longrightarrow> w - 100 \<noteq> 0 \<and> en \<le> 100 / (w - 100) * (a - 40)"
  shows "Electron_bounded w e"
  using assms by (auto simp: Electron_bounded_def Fin_times)

lemma accelerate_bounds:
  fixes a c en V D :: real
  assumes "0 \<le> V" "V \<le> 100" "1 \<le> D" "a - 40 < D" "0 \<le> c" "c \<le> 30" "0 \<le> en"
    and "en \<le> 100 / D * (a - 40)"
  shows "0 \<le> en + V / D * c"
    and "en + V / D * c \<le> 100 / D * (a + c - 40)"
    and "en + V / D * c \<le> 3100"
    and "0 \<le> 1 + sqrt (en + V / D * c) * 0.5"
    and "1 + sqrt (en + V / D * c) * 0.5 \<le> 30"
proof -
  have E: "0 \<le> V / D" "V / D \<le> 100 / D" "0 \<le> 100 / D" "100 / D \<le> 100"
    using assms(1-3) by (simp_all add: field_simps)
  have Ec: "0 \<le> V / D * c" using E(1) assms(5) by (rule mult_nonneg_nonneg)
  show p: "0 \<le> en + V / D * c" using Ec assms(7) by linarith
  have Vc: "V / D * c \<le> 100 / D * c"
    using E(2) assms(5) by (rule mult_right_mono)
  have d: "100 / D * (a + c - 40) = 100 / D * (a - 40) + 100 / D * c"
    by (simp only: distrib_left diff_conv_add_uminus add.assoc add.commute [of c])
  show r: "en + V / D * c \<le> 100 / D * (a + c - 40)"
    unfolding d using assms(8) Vc by linarith
  have "100 / D * (a - 40) \<le> 100 / D * D"
    using assms(4) E(3) by (intro mult_left_mono) simp_all
  also have "\<dots> = 100" using assms(3) by simp
  finally have 1: "100 / D * (a - 40) \<le> 100" .
  have 2: "100 / D * c \<le> 100 * 30"
    using E(3,4) assms(5,6) by (intro mult_mono) simp_all
  show u: "en + V / D * c \<le> 3100" using assms(8) Vc 1 2 by linarith
  have "sqrt (en + V / D * c) \<le> 56"
    using u by (intro real_le_lsqrt) simp_all
  then show "1 + sqrt (en + V / D * c) * 0.5 \<le> 30" by simp
  have "0 \<le> sqrt (en + V / D * c)" using p by (simp only: real_sqrt_ge_zero)
  then show "0 \<le> 1 + sqrt (en + V / D * c) * 0.5" by simp
qed

lemma canvas_width_ge:
  fixes w :: real
  assumes "w \<in> \<nat>" "100 < w"
  shows "1 \<le> w - 100"
proof -
  from assms(1) obtain n :: nat where n: "w = of_nat n" by (auto simp: Nats_def)
  with assms(2) have "100 < n" by simp
  then have "101 \<le> n" by simp
  then have "(101::real) \<le> of_nat n" by (metis of_nat_le_iff of_nat_numeral)
  with n show ?thesis by simp
qed

lemma Electron_update_bounded:
  assumes "0 \<le> vAcc st" "vAcc st \<le> 100" "0 \<le> vRet st" "vRet st \<le> 100"
    and "tubeCanvas_width st \<in> \<nat>" "Electron_bounded (tubeCanvas_width st) e"
  shows "Electron_in_range (tubeCanvas_width st) (fst (Electron_update st u e)) \<and>
         (e_active (fst (Electron_update st u e)) \<longrightarrow>
            Electron_bounded (tubeCanvas_width st) (fst (Electron_update st u e)))"
proof -
  let ?w = "tubeCanvas_width st"
  let ?e' = "fst (Electron_update st u e)"
  from assms(6) obtain a b c en where
    f: "e_x e = Fin a" "e_y e = Fin b" "e_vx e = Fin c" "e_energy e = Fin en"
    and r: "40 \<le> a" "a \<le> ?w + 40" "- 50 \<le> b" "b \<le> 100050" "0 \<le> c" "c \<le> 30"
      "0 \<le> en" "en \<le> 3100"
    and rel: "a < ?w - 60 \<and> ?w - 100 \<noteq> 0 \<longrightarrow> en \<le> 100 / (?w - 100) * (a - 40)"
    by (rule Electron_boundedD)
  have range: "Electron_in_range ?w e"
    using assms(6) by (simp add: Electron_bounded_def)
  show ?thesis
  proof (cases "e_active e")
    case False
    then show ?thesis
      using range assms(6) by (simp add: Electron_update_inactive)
  next
    case act: True
    show ?thesis
    proof (cases "a < ?w - 60")
      case True
      then have "100 < ?w" using r(1) by linarith
      then have D: "1 \<le> ?w - 100" using assms(5) by (intro canvas_width_ge)
      then have nz: "?w - 100 \<noteq> 0" by linarith
      have relr: "en \<le> 100 / (?w - 100) * (a - 40)" using rel True nz by blast
      have lt: "a - 40 < ?w - 100" using True by linarith
      let ?en1 = "en + vAcc st / (?w - 100) * c"
      note b = accelerate_bounds [OF assms(1,2) D lt r(5,6,7) relr]
      note up = Electron_update_accelerating [OF act f(1,3,4) True nz b(1), of u]
      let ?hit = "EXCITATION_ENERGY \<le> ?en1 \<and> 0.01 < fst (getTemperatureFactor (temperature st)) \<and>
                  u < 0.2 * fst (getTemperatureFactor (temperature st))"
      let ?en2 = "if ?hit then ?en1 - EXCITATION_ENERGY else ?en1"
      let ?c2 = "if ?hit then 0.5 else 1 + sqrt ?en1 * 0.5"
      have en2: "0 \<le> ?en2" "?en2 \<le> ?en1" "?en2 \<le> 3100"
        using b(1,3) by (auto simp: EXCITATION_ENERGY_def)
      have c2: "0 \<le> ?c2" "?c2 \<le> 30" using b(4,5) by auto
      have a2: "40 \<le> a + c" "a + c \<le> ?w + 40" using r(1,5,6) True by linarith+
      have y: "e_y ?e' = Fin b" using up(2) f(2) by simp
      have m: "- 100 \<le> ?en2" using en2(1) by linarith
      have in_range: "Electron_in_range ?w ?e'"
        by (rule Electron_in_rangeI [OF up(1) y up(5) up(4) a2 r(3,4) c2 m en2(3)])
      have rel2: "a + c < ?w - 60 \<longrightarrow>
          ?w - 100 \<noteq> 0 \<and> ?en2 \<le> 100 / (?w - 100) * (a + c - 40)"
        using nz en2(2) b(2) by auto
      have "Electron_bounded ?w ?e'"
        by (rule Electron_boundedI [OF in_range up(1) up(4) en2(1) rel2])
      with in_range show ?thesis by blast
    next
      case notacc: False
      show ?thesis
      proof (cases "a < ?w - 20")
        case True
        note up = Electron_update_retarding [OF act f(1,3,4) notacc True, of u]
        let ?en1 = "en - vRet st / 40 * c"
        have "vRet st * c \<le> 100 * 30"
          using assms(3,4) r(5,6) by (intro mult_mono) simp_all
        moreover have "0 \<le> vRet st * c"
          using assms(3) r(5) by (rule mult_nonneg_nonneg)
        ultimately have "0 \<le> vRet st / 40 * c" "vRet st / 40 * c \<le> 100"
          by simp_all
        then have en1: "- 100 \<le> ?en1" "?en1 \<le> 3100" using r(7,8) by linarith+
        have a2: "40 \<le> a + c" "a + c \<le> ?w + 40" using r(1,5,6) True by linarith+
        have y: "e_y ?e' = Fin b" using up(2) f(2) by simp
        have in_range: "Electron_in_range ?w ?e'"
          by (rule Electron_in_rangeI [OF up(1) y up(3) up(4) a2 r(3,4) r(5,6) en1])
        have "Electron_bounded ?w ?e'" if "e_active ?e'"
        proof -
          from that up(5) have pos: "0 \<le> ?en1" by linarith
          have rel2: "a + c < ?w - 60 \<longrightarrow>
              ?w - 100 \<noteq> 0 \<and> ?en1 \<le> 100 / (?w - 100) * (a + c - 40)"
            using notacc r(5) by auto
          show ?thesis
            by (rule Electron_boundedI [OF in_range up(1) up(4) pos rel2])
        qed
        with in_range show ?thesis by blast
      next
        case False
        have "?e' = e\<lparr>e_active := False\<rparr>"
          by (rule Electron_update_beyond [OF act f(1) notacc False])
        then show ?thesis using range by (simp add: Electron_in_range_def)
      qed
    qed
  qed
qed

lemma Electron_reset_bounded:
  assumes "0 \<le> u1" "u1 \<le> 1" "0 \<le> u2" "u2 \<le> 1" "0 \<le> h" "h \<le> 10 ^ 5" "0 \<le> w"
  shows "Electron_bounded w (Electron_reset h u1 u2)"
proof -
  have "u1 * (h - 100) \<le> 1 * 10 ^ 5 \<or> u1 * (h - 100) \<le> 0"
  proof (cases "0 \<le> h - 100")
    case True
    then have "u1 * (h - 100) \<le> 1 * 10 ^ 5"
      using assms(1,2,6) by (intro mult_mono) simp_all
    then show ?thesis by blast
  next
    case False
    then have "u1 * (h - 100) \<le> 0"
      using assms(1) by (simp add: mult_nonneg_nonpos)
    then show ?thesis by blast
  qed
  then have hi: "50 + u1 * (h - 100) \<le> 100050" by auto
  have "- 100 \<le> u1 * (h - 100)"
  proof (cases "0 \<le> h - 100")
    case True
    then have "0 \<le> u1 * (h - 100)" using assms(1) by simp
    then show ?thesis by linarith
  next
    case False
    then have "u1 * (100 - h) \<le> 1 * 100"
      using assms(1,2,5) by (intro mult_mono) simp_all
    then show ?thesis by (simp add: algebra_simps)
  qed
  then have lo: "- 50 \<le> 50 + u1 * (h - 100)" by linarith
  show ?thesis
    using assms(3,4,7) hi lo
    by (auto simp: Electron_bounded_def Electron_in_range_def Electron_reset_def Fin_times)
qed

lemma Electron_updates_bounded:
  assumes "\<forall>f \<in> set frames. 0 \<le> vAcc (fst f) \<and> vAcc (fst f) \<le> 100 \<and>
             0 \<le> vRet (fst f) \<and> vRet (fst f) \<le> 100 \<and> tubeCanvas_width (fst f) = w"
    and "w \<in> \<nat>"
    and "Electron_in_range w e \<and> (e_active e \<longrightarrow> Electron_bounded w e)"
  shows "Electron_in_range w (Electron_updates frames e) \<and>
         (e_active (Electron_updates frames e) \<longrightarrow> Electron_bounded w (Electron_updates frames e))"
  using assms
proof (induction frames arbitrary: e)
  case Nil
  then show ?case by simp
next
  case (Cons f frames)
  obtain st u where f: "f = (st, u)" by (cases f)
  from Cons.prems(1) f have st: "0 \<le> vAcc st" "vAcc st \<le> 100" "0 \<le> vRet st" "vRet st \<le> 100"
    "tubeCanvas_width st = w" by simp_all
  have w: "tubeCanvas_width st \<in> \<nat>" using st(5) Cons.prems(2) by simp
  have step: "Electron_in_range w (fst (Electron_update st u e)) \<and>
      (e_active (fst (Electron_update st u e)) \<longrightarrow> Electron_bounded w (fst (Electron_update st u e)))"
  proof (cases "e_active e")
    case True
    then have "Electron_bounded (tubeCanvas_width st) e" using Cons.prems(3) st(5) by simp
    from Electron_update_bounded [OF st(1-4) w this, of u] show ?thesis
      unfolding st(5) .
  next
    case False
    then show ?thesis using Cons.prems(3) by (simp add: Electron_update_inactive)
  qed
  have rest: "\<forall>f \<in> set frames. 0 \<le> vAcc (fst f) \<and> vAcc (fst f) \<le> 100 \<and>
      0 \<le> vRet (fst f) \<and> vRet (fst f) \<le> 100 \<and> tubeCanvas_width (fst f) = w"
    using Cons.prems(1) by simp
  show ?case
    unfolding f Electron_updates.simps
    by (rule Cons.IH [OF rest Cons.prems(2) step])
qed

lemma Electron_update_active_iff:
  "e_active (fst (Electron_update st u e)) \<longleftrightarrow>
     e_active e \<and>
     (e_x e < Fin (tubeCanvas_width st - 60) \<or>
      (e_x e < Fin (tubeCanvas_width st - 20) \<and>
       \<not> e_energy e - Fin (vRet st) / Fin (tubeCanvas_width st - 20 - (tubeCanvas_width st - 60)) * e_vx e
            \<le> Fin 0))"
  by (auto simp: Electron_update_def Let_def)

lemma Electron_update_nan_position:
  "isNaN (e_x e) \<Longrightarrow> \<not> e_active (fst (Electron_update st u e))"
  unfolding Electron_update_active_iff by (cases "e_x e") simp_all

text \<open>
  The photoelectrons: one step of an electron inside the tube region, the emission
  point and speed of a fresh electron, and the pool over a run of frames.
\<close>

lemma electron_step_Fin:
  assumes "p_x e = Fin a" "p_y e = Fin b" "p_vx e = Fin c" "p_vy e = Fin d"
  shows "p_x (fst (electron_step ff w e)) = Fin (a + (c - ff))"
    and "p_y (fst (electron_step ff w e)) = Fin (b + d)"
    and "p_vx (fst (electron_step ff w e)) = Fin (c - ff)"
    and "p_vy (fst (electron_step ff w e)) = Fin d"
    and "\<not> dead (fst (electron_step ff w e)) \<longrightarrow>
           300 \<le> a + (c - ff) \<and> 130 \<le> b + d \<and> b + d \<le> 370 \<and>
           (a + (c - ff) \<le> 350 \<or>
            sqrt ((a + (c - ff) - 350) * (a + (c - ff) - 350) + (b + d - 250) * (b + d - 250)) \<le> 180)"
  using assms
  by (auto simp: electron_step_def Let_def Fin_plus)

lemma le_hypot:
  fixes s t :: real
  shows "s \<le> sqrt (s * s + t * t)"
  using real_sqrt_sum_squares_ge1 [of s t] by (simp add: power2_eq_square)

lemma electron_step_in_tube:
  assumes "photoelectron_in_tube e" "- 100 \<le> ff" "ff \<le> 100"
  shows "photoelectron_in_range (fst (electron_step ff w e)) \<and>
         (\<not> dead (fst (electron_step ff w e)) \<longrightarrow> photoelectron_in_tube (fst (electron_step ff w e)))"
proof -
  let ?e' = "fst (electron_step ff w e)"
  from assms(1) have r: "Fin 300 \<le> p_x e" "p_x e \<le> Fin 530" "Fin 130 \<le> p_y e" "p_y e \<le> Fin 370"
    "Fin (- 240) \<le> p_vx e" "p_vx e \<le> Fin 240" "Fin (- 240) \<le> p_vy e" "p_vy e \<le> Fin 240"
    by (simp_all add: photoelectron_in_tube_def)
  from r(1,2) obtain a where a: "p_x e = Fin a" "300 \<le> a" "a \<le> 530" by (rule jsnum_between)
  from r(3,4) obtain b where b: "p_y e = Fin b" "130 \<le> b" "b \<le> 370" by (rule jsnum_between)
  from r(5,6) obtain c where c: "p_vx e = Fin c" "- 240 \<le> c" "c \<le> 240" by (rule jsnum_between)
  from r(7,8) obtain d where d: "p_vy e = Fin d" "- 240 \<le> d" "d \<le> 240" by (rule jsnum_between)
  note st = electron_step_Fin [OF a(1) b(1) c(1) d(1), of ff w]
  have range: "photoelectron_in_range ?e'"
    unfolding photoelectron_in_range_def st(1-4)
    using a b c d assms(2,3) by simp
  have "photoelectron_in_tube ?e'" if alive: "\<not> dead ?e'"
  proof -
    let ?x = "a + (c - ff)"
    let ?y = "b + d"
    from st(5) alive have l: "300 \<le> ?x" "130 \<le> ?y" "?y \<le> 370"
      and h: "?x \<le> 350 \<or> sqrt ((?x - 350) * (?x - 350) + (?y - 250) * (?y - 250)) \<le> 180"
      by blast+
    have "?x - 350 \<le> sqrt ((?x - 350) * (?x - 350) + (?y - 250) * (?y - 250))"
      by (rule le_hypot)
    with h have u: "?x \<le> 530" by linarith
    have v: "- 240 \<le> c - ff" "c - ff \<le> 240" using l(1) u a(2,3) by linarith+
    show ?thesis
      unfolding photoelectron_in_tube_def st(1-4)
      using l u v d by simp
  qed
  with range show ?thesis by blast
qed

lemma electron_step_nan:
  assumes "isNaN (p_x e)" "\<not> dead e" "Fin 130 \<le> p_y e + p_vy e" "p_y e + p_vy e \<le> Fin 370"
  shows "\<not> dead (fst (electron_step ff w e)) \<and> isNaN (p_x (fst (electron_step ff w e)))"
proof -
  from assms(1) have x: "p_x e = NaN" by (cases "p_x e") simp_all
  from assms(3,4) obtain y where y: "p_y e + p_vy e = Fin y" "130 \<le> y" "y \<le> 370"
    by (rule jsnum_between)
  show ?thesis
    using x y assms(2) by (simp add: electron_step_def Let_def minus_jsnum_def)
qed

lemma emission_point:
  fixes u :: real
  assumes "0 \<le> u" "u \<le> 1"
  shows "348 \<le> 350 + 180 * cos ((u - 0.5) * 2 * 0.6) - 2"
    and "350 + 180 * cos ((u - 0.5) * 2 * 0.6) - 2 \<le> 528"
    and "142 \<le> 250 + 180 * sin ((u - 0.5) * 2 * 0.6)"
    and "250 + 180 * sin ((u - 0.5) * 2 * 0.6) \<le> 358"
proof -
  let ?t = "(u - 0.5) * 2 * 0.6"
  have tt: "- 0.6 \<le> ?t" "?t \<le> 0.6" using assms by argo+
  then have t: "\<bar>?t\<bar> \<le> 0.6" by linarith
  have "- (pi / 2) \<le> ?t" "?t \<le> pi / 2" using tt pi_ge_two by linarith+
  then have c0: "0 \<le> cos ?t" by (rule cos_ge_zero)
  have c1: "cos ?t \<le> 1" by (rule cos_le_one)
  have "\<bar>sin ?t\<bar> \<le> \<bar>?t\<bar>" by (rule abs_sin_x_le_abs_x)
  with t have s: "\<bar>sin ?t\<bar> \<le> 0.6" by linarith
  show "348 \<le> 350 + 180 * cos ?t - 2" using c0 by linarith
  show "350 + 180 * cos ?t - 2 \<le> 528" using c1 by linarith
  show "142 \<le> 250 + 180 * sin ?t" using s by (simp add: abs_if split: if_splits)
  show "250 + 180 * sin ?t \<le> 358" using s by (simp add: abs_if split: if_splits)
qed

lemma emission_speed:
  fixes lam phi u t :: real
  assumes "1 \<le> lam" "0 \<le> phi" "phi < 1240 / lam" "0 \<le> u" "u \<le> 1"
  defines "ke \<equiv> (1240 / lam - phi) * (0.9 + u * 0.1)"
  shows "0 \<le> ke" and "\<bar>cos t * (sqrt ke * 2)\<bar> \<le> 72" and "\<bar>sin t * (sqrt ke * 2)\<bar> \<le> 72"
proof -
  have "1240 / lam \<le> 1240 / 1" using assms(1) by (intro divide_left_mono) simp_all
  then have m: "0 \<le> 1240 / lam - phi" "1240 / lam - phi \<le> 1240"
    using assms(2,3) by linarith+
  have f: "0 \<le> 0.9 + u * 0.1" "0.9 + u * 0.1 \<le> 1" using assms(4,5) by simp_all
  show k0: "0 \<le> ke" unfolding ke_def using m(1) f(1) by (rule mult_nonneg_nonneg)
  have "ke \<le> 1240 * 1" unfolding ke_def using m f by (intro mult_mono) simp_all
  then have "sqrt ke \<le> 36" by (intro real_le_lsqrt) simp_all
  moreover have "0 \<le> sqrt ke" using k0 by simp
  ultimately have sp: "0 \<le> sqrt ke * 2" "sqrt ke * 2 \<le> 72" by simp_all
  have "\<bar>cos t * (sqrt ke * 2)\<bar> \<le> 1 * 72"
    unfolding abs_mult using sp by (intro mult_mono) simp_all
  then show "\<bar>cos t * (sqrt ke * 2)\<bar> \<le> 72" by simp
  have "\<bar>sin t * (sqrt ke * 2)\<bar> \<le> 1 * 72"
    unfolding abs_mult using sp by (intro mult_mono) simp_all
  then show "\<bar>sin t * (sqrt ke * 2)\<bar> \<le> 72" by simp
qed

lemma photoelectron_in_tubeI:
  assumes "300 \<le> a" "a \<le> 530" "130 \<le> b" "b \<le> 370" "\<bar>c\<bar> \<le> 240" "\<bar>d\<bar> \<le> 240"
  shows "photoelectron_in_tube \<lparr>p_x = Fin a, p_y = Fin b, p_vx = Fin c, p_vy = Fin d, p_ke = k, dead = z\<rparr>"
  using assms by (simp add: photoelectron_in_tube_def abs_if split: if_splits)

lemma spawnRandomElectron_in_tube:
  assumes "list_all photoelectron_in_tube (electrons s)"
    and "1 \<le> ph_lambda s" "0 \<le> workFunction s" "\<forall>k. 0 \<le> rnd k \<and> rnd k \<le> 1"
  shows "list_all photoelectron_in_tube (electrons (spawnRandomElectron rnd s))"
proof (cases "below_threshold s")
  case True
  then show ?thesis using assms(1) by (simp add: spawnRandomElectron_below)
next
  case False
  let ?n = "random_calls s"
  let ?s1 = "s\<lparr>random_calls := Suc ?n\<rparr>"
  let ?t = "(rnd ?n - 0.5) * 2 * 0.6"
  let ?ang = "?t + pi + (rnd (Suc (Suc ?n)) - 0.5) * 1.0"
  let ?ke = "(1240 / ph_lambda s - workFunction s) * (0.9 + rnd (Suc ?n) * 0.1)"
  have lam: "ph_lambda s \<noteq> 0" using assms(2) by linarith
  from False have above: "workFunction s < 1240 / ph_lambda s"
    using lam by (simp add: below_threshold_def HC_def)
  have u: "0 \<le> rnd ?n" "rnd ?n \<le> 1" "0 \<le> rnd (Suc ?n)" "rnd (Suc ?n) \<le> 1"
    using assms(4) by simp_all
  note pt = emission_point [OF u(1,2)]
  note sp = emission_speed [OF assms(2,3) above u(3,4)]
  have nb: "\<not> below_threshold ?s1" using False by simp
  have ke: "(Fin HC / Fin (ph_lambda ?s1) - Fin (workFunction ?s1)) * Fin (0.9 + rnd (random_calls ?s1) * 0.1)
      = Fin ?ke"
    using lam by (simp add: HC_def Fin_times)
  have new: "photoelectron_in_tube
      \<lparr>p_x = Fin (350 + 180 * cos ?t - 2), p_y = Fin (250 + 180 * sin ?t),
       p_vx = Fin (cos ?ang * (sqrt ?ke * 2)), p_vy = Fin (sin ?ang * (sqrt ?ke * 2)),
       p_ke = Fin ?ke, dead = False\<rparr>"
  proof (rule photoelectron_in_tubeI)
    show "300 \<le> 350 + 180 * cos ?t - 2" using pt(1) by linarith
    show "350 + 180 * cos ?t - 2 \<le> 530" using pt(2) by linarith
    show "130 \<le> 250 + 180 * sin ?t" using pt(3) by linarith
    show "250 + 180 * sin ?t \<le> 370" using pt(4) by linarith
    show "\<bar>cos ?ang * (sqrt ?ke * 2)\<bar> \<le> 240" using sp(2) [of ?ang] by linarith
    show "\<bar>sin ?ang * (sqrt ?ke * 2)\<bar> \<le> 240" using sp(3) [of ?ang] by linarith
  qed
  have "electrons (spawnRandomElectron rnd s) = electrons s @
      [\<lparr>p_x = Fin (350 + 180 * cos ?t - 2), p_y = Fin (250 + 180 * sin ?t),
        p_vx = Fin (cos ?ang * (sqrt ?ke * 2)), p_vy = Fin (sin ?ang * (sqrt ?ke * 2)),
        p_ke = Fin ?ke, dead = False\<rparr>]"
    unfolding spawnRandomElectron_def Let_def Math_random_def split_conv
      spawnElectron_above [OF nb] ke
    using sp(1) by (simp add: Fin_times SCALE_SPEED_def)
  then show ?thesis using assms(1) new by simp
qed

lemma guaranteed_spawns_in_tube:
  assumes "list_all photoelectron_in_tube (electrons s)"
    and "1 \<le> ph_lambda s" "0 \<le> workFunction s" "\<forall>k. 0 \<le> rnd k \<and> rnd k \<le> 1"
  shows "list_all photoelectron_in_tube (electrons (guaranteed_spawns rnd n s))"
  using assms
proof (induction n arbitrary: s)
  case 0
  then show ?case by simp
next
  case (Suc n)
  have "list_all photoelectron_in_tube (electrons (spawnRandomElectron rnd s))"
    by (rule spawnRandomElectron_in_tube [OF Suc.prems])
  then show ?case using Suc.prems by (simp add: Suc.IH)
qed

lemma spawning_logic_in_tube:
  assumes "list_all photoelectron_in_tube (electrons s)"
    and "1 \<le> ph_lambda s" "0 \<le> workFunction s" "\<forall>k. 0 \<le> rnd k \<and> rnd k \<le> 1"
  shows "list_all photoelectron_in_tube (electrons (spawning_logic rnd s))"
proof (cases "0 < intensity s")
  case False
  then show ?thesis using assms(1) by (simp add: spawning_logic_def)
next
  case True
  let ?s1 = "guaranteed_spawns rnd (nat \<lfloor>intensity s * 0.03\<rfloor>) s"
  let ?s2 = "?s1\<lparr>random_calls := Suc (random_calls ?s1)\<rparr>"
  have 1: "list_all photoelectron_in_tube (electrons ?s2)"
    using guaranteed_spawns_in_tube [OF assms] by simp
  have 2: "list_all photoelectron_in_tube (electrons (spawnRandomElectron rnd ?s2))"
    using 1 assms(2-4) by (intro spawnRandomElectron_in_tube) simp_all
  show ?thesis
    unfolding spawning_logic_unfold [OF True] Let_def using 1 2 by simp
qed

lemma updateElectrons_in_tube:
  assumes "list_all photoelectron_in_tube (electrons s)" "\<bar>ph_voltage s\<bar> \<le> 2000"
  shows "list_all photoelectron_in_tube (electrons (updateElectrons ts s))"
proof -
  have ff: "- 100 \<le> ph_voltage s * 0.05" "ph_voltage s * 0.05 \<le> 100"
    using assms(2) by (simp_all add: abs_if split: if_splits)
  show ?thesis
    unfolding updateElectrons_electrons
    using assms(1) electron_step_in_tube [OF _ ff]
    by (auto simp: list_all_iff)
qed

lemma calculateRealCurrent_electrons [simp]:
  "electrons (calculateRealCurrent ts s) = electrons s"
  by (simp add: calculateRealCurrent_def Let_def)

lemma loop_in_tube:
  assumes "list_all photoelectron_in_tube (electrons s)" "\<bar>ph_voltage s\<bar> \<le> 2000"
    and "1 \<le> ph_lambda s" "0 \<le> workFunction s" "\<forall>k. 0 \<le> rnd k \<and> rnd k \<le> 1"
  shows "list_all photoelectron_in_tube (electrons (loop rnd ts s))"
proof -
  let ?s1 = "s\<lparr>ph_time := ph_time s + 1, wavePhase := wavePhase s - 0.1\<rparr>"
  have "list_all photoelectron_in_tube (electrons (updateElectrons ts ?s1))"
    using assms(1,2) by (intro updateElectrons_in_tube) simp_all
  then have "list_all photoelectron_in_tube (electrons (spawning_logic rnd (updateElectrons ts ?s1)))"
    using assms(3-5) by (intro spawning_logic_in_tube) simp_all
  then show ?thesis by (simp add: loop_def Let_def)
qed

lemma run_in_tube:
  assumes "list_all photoelectron_in_tube (electrons s)" "\<bar>ph_voltage s\<bar> \<le> 2000"
    and "1 \<le> ph_lambda s" "0 \<le> workFunction s" "\<forall>k. 0 \<le> rnd k \<and> rnd k \<le> 1"
  shows "list_all photoelectron_in_tube (electrons (run rnd tss s))"
  using assms
proof (induction tss arbitrary: s)
  case Nil
  then show ?case by simp
next
  case (Cons ts tss)
  have "list_all photoelectron_in_tube (electrons (loop rnd ts s))"
    by (rule loop_in_tube [OF Cons.prems])
  then show ?case using Cons.prems by (simp add: Cons.IH)
qed

text \<open>
  Claim C7 says that after any update position and velocity are finite, and that an
  update that cannot produce finite values marks the particle inactive. This fails
  in the tube animation: with a negative accelerating voltage a fresh electron gets
  a negative energy, its velocity becomes \<open>NaN\<close>, and it is still active.
\<close>

theorem Electron_update_nan_counterexample:
  "(let e' = fst (Electron_update (fh_initial\<lparr>vAcc := - 10\<rparr>) 0.5 (Electron_reset 500 0.125 0))
    in e_vx e' = NaN \<and> e_active e' \<and> \<not> Electron_finite e')"
  by (simp add: Electron_update_def Let_def fh_initial_def Electron_reset_def Electron_finite_def
      EXCITATION_ENERGY_def getTemperatureFactor_def)

text \<open>
  Claim C7, amended. Within the ranges the pages work in, the updates keep position
  and velocity finite and inside explicit bounds.

  \<^item> An oil drop with a radius between 0.4 and 1.2 micrometres, a charge of magnitude
    at most \<open>2 / 10 ^ 19\<close> and a finite position, at a voltage between \<open>-2000\<close> and
    \<open>2000\<close>, a frame time of at most 1000 seconds and jitter draws in \<open>[0, 1]\<close>:
    after \<open>update\<close> the velocity is finite, of magnitude at most \<open>1 / 10 ^ 5\<close>
    horizontally and \<open>1 / 100\<close> vertically, and the position is finite and has moved
    by at most \<open>1 / 100\<close> horizontally and \<open>10\<close> vertically; radius and charge are
    unchanged, so this holds again for the next \<open>update\<close>.
  \<^item> An electron of the tube animation, from its creation (draws in \<open>[0, 1]\<close>, a
    canvas height between 0 and \<open>10 ^ 5\<close>) through any number of calls of
    \<open>update\<close>, in frames whose accelerating and retarding voltages are between 0
    and 100 and whose canvas width is one natural number up to \<open>10 ^ 5\<close>: after
    the calls it is in range (\<open>Electron_in_range\<close>).
  \<^item> A photoelectron inside the tube region, with a force factor between \<open>-100\<close> and
    \<open>100\<close>: after its step it is in range (\<open>photoelectron_in_range\<close>), and it is
    inside the tube region again unless the step marks it dead. After any run of
    frames from a state whose electrons are inside the tube region, with a voltage
    between \<open>-2000\<close> and \<open>2000\<close>, a wavelength of at least 1 nm, a work function
    that is not negative and draws in \<open>[0, 1]\<close>, every electron of the pool is
    inside the tube region.

  Outside these ranges a particle can keep a value that is not finite and stay
  active: an electron of the tube animation is active after \<open>update\<close> exactly
  when it was active and either \<open>x < gridX\<close>, or \<open>x < anodeX\<close> and the new
  energy \<open>energy - vRet / (anodeX - gridX) * vx\<close> is not \<open>\<le> 0\<close>. So
  an electron whose \<open>x\<close> is \<open>NaN\<close> is deactivated, by the final \<open>else\<close>, while
  one left of the grid stays active whatever its velocity and energy are, as in the
  example above. A live photoelectron whose \<open>x\<close> is \<open>NaN\<close> and whose next \<open>y\<close>
  is between 130 and 370 is not marked dead by its step, and its \<open>x\<close> is still
  \<open>NaN\<close>.
\<close>

theorem updates_keep_particles_finite:
  "(radius d = Fin r \<and> 4 / 10 ^ 7 \<le> r \<and> r \<le> 12 / 10 ^ 7 \<and>
    q d = Fin qd \<and> \<bar>qd\<bar> \<le> 2 / 10 ^ 19 \<and> x d = Fin x0 \<and> y d = Fin y0 \<and>
    \<bar>volt\<bar> \<le> 2000 \<and> \<bar>dt\<bar> \<le> 1000 \<and> 0 \<le> u1 \<and> u1 \<le> 1 \<and> 0 \<le> u2 \<and> u2 \<le> 1 \<longrightarrow>
      (\<exists>vx' vy' x' y'.
         vx (OilDrop_update (Fin volt) dt u1 u2 d) = Fin vx' \<and> \<bar>vx'\<bar> \<le> 1 / 10 ^ 5 \<and>
         vy (OilDrop_update (Fin volt) dt u1 u2 d) = Fin vy' \<and> \<bar>vy'\<bar> \<le> 1 / 100 \<and>
         x (OilDrop_update (Fin volt) dt u1 u2 d) = Fin x' \<and> \<bar>x' - x0\<bar> \<le> 1 / 100 \<and>
         y (OilDrop_update (Fin volt) dt u1 u2 d) = Fin y' \<and> \<bar>y' - y0\<bar> \<le> 10) \<and>
      radius (OilDrop_update (Fin volt) dt u1 u2 d) = radius d \<and>
      q (OilDrop_update (Fin volt) dt u1 u2 d) = q d) \<and>
   ((\<forall>f \<in> set frames. 0 \<le> vAcc (fst f) \<and> vAcc (fst f) \<le> 100 \<and>
       0 \<le> vRet (fst f) \<and> vRet (fst f) \<le> 100 \<and> tubeCanvas_width (fst f) = cw) \<and>
    cw \<in> \<nat> \<and> cw \<le> 10 ^ 5 \<and> 0 \<le> r1 \<and> r1 \<le> 1 \<and> 0 \<le> r2 \<and> r2 \<le> 1 \<and> 0 \<le> h \<and> h \<le> 10 ^ 5 \<longrightarrow>
      Electron_in_range cw (Electron_updates frames (Electron_reset h r1 r2))) \<and>
   (e_active (fst (Electron_update st u e)) \<longleftrightarrow>
      e_active e \<and>
      (e_x e < Fin (tubeCanvas_width st - 60) \<or>
       (e_x e < Fin (tubeCanvas_width st - 20) \<and>
        \<not> e_energy e - Fin (vRet st) / Fin (tubeCanvas_width st - 20 - (tubeCanvas_width st - 60)) * e_vx e
            \<le> Fin 0))) \<and>
   (isNaN (e_x e) \<longrightarrow> \<not> e_active (fst (Electron_update st u e))) \<and>
   (photoelectron_in_tube p \<and> - 100 \<le> ff \<and> ff \<le> 100 \<longrightarrow>
      photoelectron_in_range (fst (electron_step ff w p)) \<and>
      (\<not> dead (fst (electron_step ff w p)) \<longrightarrow>
         photoelectron_in_tube (fst (electron_step ff w p)))) \<and>
   (list_all photoelectron_in_tube (electrons s) \<and> \<bar>ph_voltage s\<bar> \<le> 2000 \<and>
    1 \<le> ph_lambda s \<and> 0 \<le> workFunction s \<and> (\<forall>k. 0 \<le> rnd k \<and> rnd k \<le> 1) \<longrightarrow>
      list_all photoelectron_in_tube (electrons (run rnd tss s))) \<and>
   (isNaN (p_x p) \<and> \<not> dead p \<and> Fin 130 \<le> p_y p + p_vy p \<and> p_y p + p_vy p \<le> Fin 370 \<longrightarrow>
      \<not> dead (fst (electron_step ff w p)) \<and> isNaN (p_x (fst (electron_step ff w p))))"
proof -
  have drop: "radius d = Fin r \<and> 4 / 10 ^ 7 \<le> r \<and> r \<le> 12 / 10 ^ 7 \<and>
    q d = Fin qd \<and> \<bar>qd\<bar> \<le> 2 / 10 ^ 19 \<and> x d = Fin x0 \<and> y d = Fin y0 \<and>
    \<bar>volt\<bar> \<le> 2000 \<and> \<bar>dt\<bar> \<le> 1000 \<and> 0 \<le> u1 \<and> u1 \<le> 1 \<and> 0 \<le> u2 \<and> u2 \<le> 1 \<longrightarrow>
      (\<exists>vx' vy' x' y'.
         vx (OilDrop_update (Fin volt) dt u1 u2 d) = Fin vx' \<and> \<bar>vx'\<bar> \<le> 1 / 10 ^ 5 \<and>
         vy (OilDrop_update (Fin volt) dt u1 u2 d) = Fin vy' \<and> \<bar>vy'\<bar> \<le> 1 / 100 \<and>
         x (OilDrop_update (Fin volt) dt u1 u2 d) = Fin x' \<and> \<bar>x' - x0\<bar> \<le> 1 / 100 \<and>
         y (OilDrop_update (Fin volt) dt u1 u2 d) = Fin y' \<and> \<bar>y' - y0\<bar> \<le> 10) \<and>
      radius (OilDrop_update (Fin volt) dt u1 u2 d) = radius d \<and>
      q (OilDrop_update (Fin volt) dt u1 u2 d) = q d"
  proof (intro impI, elim conjE)
    assume "radius d = Fin r" "4 / 10 ^ 7 \<le> r" "r \<le> 12 / 10 ^ 7" "q d = Fin qd"
      "\<bar>qd\<bar> \<le> 2 / 10 ^ 19" "x d = Fin x0" "y d = Fin y0" "\<bar>volt\<bar> \<le> 2000" "\<bar>dt\<bar> \<le> 1000"
      "0 \<le> u1" "u1 \<le> 1" "0 \<le> u2" "u2 \<le> 1"
    then have "\<exists>vx' vy' x' y'.
         vx (OilDrop_update (Fin volt) dt u1 u2 d) = Fin vx' \<and> \<bar>vx'\<bar> \<le> 1 / 10 ^ 5 \<and>
         vy (OilDrop_update (Fin volt) dt u1 u2 d) = Fin vy' \<and> \<bar>vy'\<bar> \<le> 1 / 100 \<and>
         x (OilDrop_update (Fin volt) dt u1 u2 d) = Fin x' \<and> \<bar>x' - x0\<bar> \<le> 1 / 100 \<and>
         y (OilDrop_update (Fin volt) dt u1 u2 d) = Fin y' \<and> \<bar>y' - y0\<bar> \<le> 10"
      by (intro OilDrop_update_position_bounds)
    then show "(\<exists>vx' vy' x' y'.
         vx (OilDrop_update (Fin volt) dt u1 u2 d) = Fin vx' \<and> \<bar>vx'\<bar> \<le> 1 / 10 ^ 5 \<and>
         vy (OilDrop_update (Fin volt) dt u1 u2 d) = Fin vy' \<and> \<bar>vy'\<bar> \<le> 1 / 100 \<and>
         x (OilDrop_update (Fin volt) dt u1 u2 d) = Fin x' \<and> \<bar>x' - x0\<bar> \<le> 1 / 100 \<and>
         y (OilDrop_update (Fin volt) dt u1 u2 d) = Fin y' \<and> \<bar>y' - y0\<bar> \<le> 10) \<and>
      radius (OilDrop_update (Fin volt) dt u1 u2 d) = radius d \<and>
      q (OilDrop_update (Fin volt) dt u1 u2 d) = q d"
      by simp
  qed
  have tube: "(\<forall>f \<in> set frames. 0 \<le> vAcc (fst f) \<and> vAcc (fst f) \<le> 100 \<and>
       0 \<le> vRet (fst f) \<and> vRet (fst f) \<le> 100 \<and> tubeCanvas_width (fst f) = cw) \<and>
    cw \<in> \<nat> \<and> cw \<le> 10 ^ 5 \<and> 0 \<le> r1 \<and> r1 \<le> 1 \<and> 0 \<le> r2 \<and> r2 \<le> 1 \<and> 0 \<le> h \<and> h \<le> 10 ^ 5 \<longrightarrow>
      Electron_in_range cw (Electron_updates frames (Electron_reset h r1 r2))"
  proof (intro impI, elim conjE)
    assume fr: "\<forall>f \<in> set frames. 0 \<le> vAcc (fst f) \<and> vAcc (fst f) \<le> 100 \<and>
        0 \<le> vRet (fst f) \<and> vRet (fst f) \<le> 100 \<and> tubeCanvas_width (fst f) = cw"
      and cw: "cw \<in> \<nat>"
      and dr: "0 \<le> r1" "r1 \<le> 1" "0 \<le> r2" "r2 \<le> 1" "0 \<le> h" "h \<le> 10 ^ 5"
    from cw have "0 \<le> cw" by (auto simp: Nats_def)
    then have fresh: "Electron_bounded cw (Electron_reset h r1 r2)"
      by (intro Electron_reset_bounded dr)
    then have "Electron_in_range cw (Electron_reset h r1 r2) \<and>
        (e_active (Electron_reset h r1 r2) \<longrightarrow> Electron_bounded cw (Electron_reset h r1 r2))"
      by (simp add: Electron_bounded_def)
    from Electron_updates_bounded [OF fr cw this]
    show "Electron_in_range cw (Electron_updates frames (Electron_reset h r1 r2))" by blast
  qed
  have active: "e_active (fst (Electron_update st u e)) \<longleftrightarrow>
      e_active e \<and>
      (e_x e < Fin (tubeCanvas_width st - 60) \<or>
       (e_x e < Fin (tubeCanvas_width st - 20) \<and>
        \<not> e_energy e - Fin (vRet st) / Fin (tubeCanvas_width st - 20 - (tubeCanvas_width st - 60)) * e_vx e
            \<le> Fin 0))"
    by (rule Electron_update_active_iff)
  have nan: "isNaN (e_x e) \<longrightarrow> \<not> e_active (fst (Electron_update st u e))"
    using Electron_update_nan_position [of e st u] by blast
  have step: "photoelectron_in_tube p \<and> - 100 \<le> ff \<and> ff \<le> 100 \<longrightarrow>
      photoelectron_in_range (fst (electron_step ff w p)) \<and>
      (\<not> dead (fst (electron_step ff w p)) \<longrightarrow>
         photoelectron_in_tube (fst (electron_step ff w p)))"
    using electron_step_in_tube [of p ff w] by blast
  have pool: "list_all photoelectron_in_tube (electrons s) \<and> \<bar>ph_voltage s\<bar> \<le> 2000 \<and>
    1 \<le> ph_lambda s \<and> 0 \<le> workFunction s \<and> (\<forall>k. 0 \<le> rnd k \<and> rnd k \<le> 1) \<longrightarrow>
      list_all photoelectron_in_tube (electrons (run rnd tss s))"
    using run_in_tube [of s rnd tss] by blast
  have pnan: "isNaN (p_x p) \<and> \<not> dead p \<and> Fin 130 \<le> p_y p + p_vy p \<and> p_y p + p_vy p \<le> Fin 370 \<longrightarrow>
      \<not> dead (fst (electron_step ff w p)) \<and> isNaN (p_x (fst (electron_step ff w p)))"
    using electron_step_nan [of p ff w] by blast
  show ?thesis
    by (rule conjI [OF drop conjI [OF tube conjI [OF active
          conjI [OF nan conjI [OF step conjI [OF pool pnan]]]]]])
qed

theorem updates_keep_particles_finite_witness:
  "(\<exists>vx' vy' x' y'.
      vx (OilDrop_update (Fin 500) 0.016 0.5 0.5 drop0) = Fin vx' \<and> \<bar>vx'\<bar> \<le> 1 / 10 ^ 5 \<and>
      vy (OilDrop_update (Fin 500) 0.016 0.5 0.5 drop0) = Fin vy' \<and> \<bar>vy'\<bar> \<le> 1 / 100 \<and>
      x (OilDrop_update (Fin 500) 0.016 0.5 0.5 drop0) = Fin x' \<and> \<bar>x' - 0.004\<bar> \<le> 1 / 100 \<and>
      y (OilDrop_update (Fin 500) 0.016 0.5 0.5 drop0) = Fin y' \<and> \<bar>y' - 0.001\<bar> \<le> 10) \<and>
   Electron_in_range 800
     (Electron_updates [(fh_initial\<lparr>vAcc := 30\<rparr>, 0.5), (fh_initial\<lparr>vAcc := 30.1\<rparr>, 0.5)]
        (Electron_reset 500 0.125 0)) \<and>
   e_active (fst (Electron_update (fh_initial\<lparr>vAcc := 30\<rparr>) 0.5 (Electron_reset 500 0.125 0))) \<and>
   \<not> e_active (fst (Electron_update (fh_initial\<lparr>vAcc := 30\<rparr>) 0.5
         ((Electron_reset 500 0.125 0)\<lparr>e_x := NaN\<rparr>))) \<and>
   photoelectron_in_range (fst (electron_step 0 800
     \<lparr>p_x = Fin 500, p_y = Fin 250, p_vx = Fin (- 2), p_vy = Fin 0, p_ke = Fin 0.07, dead = False\<rparr>)) \<and>
   photoelectron_in_tube (fst (electron_step 0 800
     \<lparr>p_x = Fin 500, p_y = Fin 250, p_vx = Fin (- 2), p_vy = Fin 0, p_ke = Fin 0.07, dead = False\<rparr>)) \<and>
   list_all photoelectron_in_tube (electrons (run (\<lambda>k. 0.1) [16, 32] photo_initial)) \<and>
   \<not> dead (fst (electron_step 0 800
     \<lparr>p_x = NaN, p_y = Fin 250, p_vx = Fin (- 2), p_vy = Fin 0, p_ke = Fin 0.07, dead = False\<rparr>))"
proof -
  let ?st = "fh_initial\<lparr>vAcc := 30\<rparr>"
  let ?e = "Electron_reset 500 0.125 0"
  let ?frames = "[(fh_initial\<lparr>vAcc := 30\<rparr>, 0.5), (fh_initial\<lparr>vAcc := 30.1\<rparr>, 0.5 :: real)]"
  let ?p = "\<lparr>p_x = Fin 500, p_y = Fin 250, p_vx = Fin (- 2), p_vy = Fin 0, p_ke = Fin 0.07, dead = False\<rparr>"
  let ?n = "\<lparr>p_x = NaN, p_y = Fin 250, p_vx = Fin (- 2), p_vy = Fin 0, p_ke = Fin 0.07, dead = False\<rparr>"
  note inst = updates_keep_particles_finite [where d = drop0 and r = "1 / 10 ^ 6" and qd = "- e_charge"
      and ?x0.0 = "0.004" and ?y0.0 = "0.001" and volt = 500 and dt = "0.016" and ?u1.0 = "0.5"
      and ?u2.0 = "0.5" and frames = ?frames and cw = 800 and h = 500 and ?r1.0 = "0.125"
      and ?r2.0 = 0 and st = ?st and e = ?e and u = "0.5" and p = ?p and ff = 0 and w = 800
      and s = photo_initial and rnd = "\<lambda>k. 0.1" and tss = "[16, 32]"]
  note inst_nan = updates_keep_particles_finite [where st = ?st and e = "?e\<lparr>e_x := NaN\<rparr>" and u = "0.5"
      and p = ?n and ff = 0 and w = 800]
  note c1 = inst [THEN conjunct1]
  note c2 = inst [THEN conjunct2, THEN conjunct1]
  note c3 = inst [THEN conjunct2, THEN conjunct2, THEN conjunct1]
  note c5 = inst [THEN conjunct2, THEN conjunct2, THEN conjunct2, THEN conjunct2, THEN conjunct1]
  note c6 = inst [THEN conjunct2, THEN conjunct2, THEN conjunct2, THEN conjunct2, THEN conjunct2,
      THEN conjunct1]
  note n4 = inst_nan [THEN conjunct2, THEN conjunct2, THEN conjunct2, THEN conjunct1]
  note n7 = inst_nan [THEN conjunct2, THEN conjunct2, THEN conjunct2, THEN conjunct2, THEN conjunct2,
      THEN conjunct2]
  have "(\<exists>vx' vy' x' y'.
      vx (OilDrop_update (Fin 500) 0.016 0.5 0.5 drop0) = Fin vx' \<and> \<bar>vx'\<bar> \<le> 1 / 10 ^ 5 \<and>
      vy (OilDrop_update (Fin 500) 0.016 0.5 0.5 drop0) = Fin vy' \<and> \<bar>vy'\<bar> \<le> 1 / 100 \<and>
      x (OilDrop_update (Fin 500) 0.016 0.5 0.5 drop0) = Fin x' \<and> \<bar>x' - 0.004\<bar> \<le> 1 / 100 \<and>
      y (OilDrop_update (Fin 500) 0.016 0.5 0.5 drop0) = Fin y' \<and> \<bar>y' - 0.001\<bar> \<le> 10) \<and>
      radius (OilDrop_update (Fin 500) 0.016 0.5 0.5 drop0) = radius drop0 \<and>
      q (OilDrop_update (Fin 500) 0.016 0.5 0.5 drop0) = q drop0"
    by (rule mp [OF c1]) (simp add: drop0_def e_charge_def)
  then have 1: "\<exists>vx' vy' x' y'.
      vx (OilDrop_update (Fin 500) 0.016 0.5 0.5 drop0) = Fin vx' \<and> \<bar>vx'\<bar> \<le> 1 / 10 ^ 5 \<and>
      vy (OilDrop_update (Fin 500) 0.016 0.5 0.5 drop0) = Fin vy' \<and> \<bar>vy'\<bar> \<le> 1 / 100 \<and>
      x (OilDrop_update (Fin 500) 0.016 0.5 0.5 drop0) = Fin x' \<and> \<bar>x' - 0.004\<bar> \<le> 1 / 100 \<and>
      y (OilDrop_update (Fin 500) 0.016 0.5 0.5 drop0) = Fin y' \<and> \<bar>y' - 0.001\<bar> \<le> 10"
    by (rule conjunct1)
  have 2: "Electron_in_range 800 (Electron_updates ?frames ?e)"
    by (rule mp [OF c2]) (simp add: fh_initial_def)
  have 3: "e_active (fst (Electron_update ?st 0.5 ?e))"
    unfolding c3 by (simp add: Electron_reset_def fh_initial_def)
  have 4: "\<not> e_active (fst (Electron_update ?st 0.5 (?e\<lparr>e_x := NaN\<rparr>)))"
    by (rule mp [OF n4]) simp
  have 56: "photoelectron_in_range (fst (electron_step 0 800 ?p)) \<and>
      (\<not> dead (fst (electron_step 0 800 ?p)) \<longrightarrow> photoelectron_in_tube (fst (electron_step 0 800 ?p)))"
    by (rule mp [OF c5]) (simp add: photoelectron_in_tube_def)
  have alive: "\<not> dead (fst (electron_step 0 800 ?p))"
    by (simp add: electron_step_def Let_def)
  from 56 alive have 5: "photoelectron_in_range (fst (electron_step 0 800 ?p))"
    and 6: "photoelectron_in_tube (fst (electron_step 0 800 ?p))" by simp_all
  have 7: "list_all photoelectron_in_tube (electrons (run (\<lambda>k. 0.1) [16, 32] photo_initial))"
    by (rule mp [OF c6]) (simp add: photo_initial_def)
  have "\<not> dead (fst (electron_step 0 800 ?n)) \<and> isNaN (p_x (fst (electron_step 0 800 ?n)))"
    by (rule mp [OF n7]) (simp add: Fin_plus)
  then have 8: "\<not> dead (fst (electron_step 0 800 ?n))" by simp
  from 1 2 3 4 5 6 7 8 show ?thesis by (intro conjI)
qed

end
